theory Spec2Isabelle
  imports Complex_Main
begin

section \<open>Data model of Projet.py\<close>

text \<open>
  Python objects have identity: a \<open>Tache\<close> is referred to by reference, the
  dictionary \<open>memo\<close> of \<open>calculer_chemin_critique\<close> is keyed by the task object
  (the class defines neither \<open>__eq__\<close> nor \<open>__hash__\<close>), and the list
  \<open>dependances\<close> holds references. Tasks therefore live in a store that maps a
  reference to the fields of the object; every reference denotes an object, as in
  Python, so the store is a total function.

  A naive \<open>datetime\<close> is represented by its number of microseconds on the
  proleptic Gregorian time line; the difference of two of them is a
  \<open>timedelta\<close>, whose attribute \<open>days\<close> is the floor of the difference divided
  by one day (Python normalises a timedelta so that \<open>0 \<le> seconds < 86400\<close>).
  All dates are naive, as in the module's script and tests: a date with a time
  zone is not represented, so the \<open>TypeError\<close> that Python raises when a naive
  date is subtracted from an aware one is outside this model, and nothing below
  speaks about it.

  The list \<open>dependances\<close> of a task is itself an object: \<open>Tache.__init__\<close>
  keeps the list it is given when that list is non-empty, so several tasks may
  hold the same list. The field \<open>dependances_id\<close> is the identity of the list
  object of a task and \<open>dependances\<close> its content; tasks with the same
  \<open>dependances_id\<close> hold the same list.
\<close>

type_synonym datetime = int

type_synonym timedelta = int

definition timedelta_days :: "timedelta \<Rightarrow> int" where
  "timedelta_days td = td div 86400000000"

definition days :: "int \<Rightarrow> timedelta" where
  "days n = n * 86400000000"

record membre =
  membre_nom :: string
  membre_role :: string

type_synonym ref = nat

record tache =
  tache_nom :: string
  tache_description :: string
  date_debut :: datetime
  date_fin :: datetime
  responsable :: membre
  statut :: string
  dependances_id :: nat
  dependances :: "ref list"

type_synonym store = "ref \<Rightarrow> tache"

record equipe =
  membres :: "membre list"

record jalon =
  jalon_nom :: string
  jalon_date :: datetime

text \<open>Python floats (\<open>probabilite\<close>, \<open>budget\<close>) are only stored and printed by
  the module, never computed on; they are represented by a real number.\<close>

record risque =
  risque_description :: string
  probabilite :: real
  impact :: string

record changement =
  changement_description :: string
  changement_version :: int
  changement_date :: datetime

text \<open>The exceptions that the modelled code can raise. \<open>RecursionError\<close> is what
  the interpreter raises when the nesting of calls exceeds its recursion limit,
  \<open>ValueError\<close> is what \<open>max\<close> raises on an empty sequence, and
  \<open>OtherException\<close> stands for an exception class defined by the user of the
  module (a notification strategy may raise one).\<close>

datatype exn = RecursionError | ValueError | OtherException string

text \<open>What the program has printed: one entry per call of \<open>print\<close>.\<close>

type_synonym stdout = "string list"

text \<open>\<open>NotificationStrategy\<close> is an abstract class with the three subclasses of
  the module; \<open>UserStrategy\<close> is a subclass written by a user of the module, whose
  \<open>envoyer_message\<close> may print and may raise.\<close>

datatype notification_strategy =
    EmailNotificationStrategy
  | SMSNotificationStrategy
  | PushNotificationStrategy
  | UserStrategy "string \<Rightarrow> membre \<Rightarrow> stdout \<Rightarrow> exn option \<times> stdout"

record notification_context =
  strategy :: notification_strategy

record projet =
  projet_nom :: string
  projet_description :: string
  projet_date_debut :: datetime
  projet_date_fin :: datetime
  budget :: real
  taches :: "ref list"
  equipe :: equipe
  risques :: "risque list"
  jalons :: "jalon list"
  version :: int
  changements :: "changement list"
  chemin_critique :: "ref list"
  notification_context :: "notification_context option"

subsection \<open>Tache\<close>

text \<open>\<open>Tache.__init__\<close>: \<open>self.dependances = dependances or []\<close>. The
  argument is absent or a list object, given by its identity and its content; an
  absent or empty argument is replaced by a new empty list, whose identity is
  \<open>fresh\<close>.\<close>

definition tache_init ::
  "string \<Rightarrow> string \<Rightarrow> datetime \<Rightarrow> datetime \<Rightarrow> membre \<Rightarrow> string \<Rightarrow>
   (nat \<times> ref list) option \<Rightarrow> nat \<Rightarrow> tache"
where
  "tache_init nom description debut fin resp st deps fresh =
     \<lparr>tache_nom = nom, tache_description = description, date_debut = debut, date_fin = fin,
      responsable = resp, statut = st,
      dependances_id =
        (case deps of None \<Rightarrow> fresh | Some (i, ds) \<Rightarrow> if ds = [] then fresh else i),
      dependances =
        (case deps of None \<Rightarrow> [] | Some (i, ds) \<Rightarrow> if ds = [] then [] else ds)\<rparr>"

text \<open>\<open>Tache.ajouter_dependance\<close> appends in place to the list object of the
  task, so every task that holds the same list sees the new element.\<close>

definition ajouter_dependance :: "ref \<Rightarrow> ref \<Rightarrow> store \<Rightarrow> store" where
  "ajouter_dependance self t h =
     (\<lambda>x. if dependances_id (h x) = dependances_id (h self)
          then (h x)\<lparr>dependances := dependances (h x) @ [t]\<rparr>
          else h x)"

definition mettre_a_jour_statut :: "ref \<Rightarrow> string \<Rightarrow> store \<Rightarrow> store" where
  "mettre_a_jour_statut self s h = h(self := (h self)\<lparr>statut := s\<rparr>)"

section \<open>The critical path\<close>

type_synonym path_result = "int \<times> ref list"

type_synonym memo = "ref \<rightharpoonup> path_result"

definition tache_span :: "store \<Rightarrow> ref \<Rightarrow> int" where
  "tache_span h t = timedelta_days (date_fin (h t) - date_debut (h t))"

text \<open>
  \<open>find_longest_path\<close> is the nested function of \<open>calculer_chemin_critique\<close>.
  The dictionary \<open>memo\<close> is mutated in place, so it is threaded through and
  returned also when an exception is raised. The first argument is the number of
  nested calls of \<open>find_longest_path\<close> that the interpreter still allows: a call
  beyond that raises \<open>RecursionError\<close>. \<open>find_longest_path_deps\<close> is the
  \<open>for dep in tache.dependances\<close> loop, carrying \<open>(max_length, max_path)\<close>.
\<close>

fun find_longest_path :: "nat \<Rightarrow> store \<Rightarrow> ref \<Rightarrow> memo \<Rightarrow> (exn + path_result) \<times> memo"
  and find_longest_path_deps ::
    "nat \<Rightarrow> store \<Rightarrow> ref list \<Rightarrow> path_result \<Rightarrow> memo \<Rightarrow> (exn + path_result) \<times> memo"
where
  "find_longest_path 0 h t memo = (Inl RecursionError, memo)"
| "find_longest_path (Suc d) h t memo =
     (case memo t of
        Some r \<Rightarrow> (Inr r, memo)
      | None \<Rightarrow>
          if dependances (h t) = [] then (Inr (0, [t]), memo(t \<mapsto> (0, [t])))
          else
            (case find_longest_path_deps d h (dependances (h t)) (0, []) memo of
               (Inl e, memo') \<Rightarrow> (Inl e, memo')
             | (Inr (max_length, max_path), memo') \<Rightarrow>
                 (Inr (max_length + tache_span h t, max_path @ [t]),
                  memo'(t \<mapsto> (max_length + tache_span h t, max_path @ [t])))))"
| "find_longest_path_deps d h [] acc memo = (Inr acc, memo)"
| "find_longest_path_deps d h (dep # deps) acc memo =
     (case find_longest_path d h dep memo of
        (Inl e, memo') \<Rightarrow> (Inl e, memo')
      | (Inr (dep_length, dep_path), memo') \<Rightarrow>
          if dep_length > fst acc
          then find_longest_path_deps d h deps (dep_length, dep_path) memo'
          else find_longest_path_deps d h deps acc memo')"

text \<open>The dependency graph of a store: an edge from a task to each task in its
  \<open>dependances\<close>.\<close>

definition dep_rel :: "store \<Rightarrow> (ref \<times> ref) set" where
  "dep_rel h = {(a, b). b \<in> set (dependances (h a))}"

text \<open>A task from which a cycle of dependencies can be reached.\<close>

definition on_cycle :: "store \<Rightarrow> ref \<Rightarrow> bool" where
  "on_cycle h t = (\<exists>u. (t, u) \<in> (dep_rel h)\<^sup>* \<and> (u, u) \<in> (dep_rel h)\<^sup>+)"

definition no_cycle_in :: "store \<Rightarrow> memo \<Rightarrow> bool" where
  "no_cycle_in h memo = (\<forall>x. x \<in> dom memo \<longrightarrow> \<not> on_cycle h x)"

text \<open>Every memoized path is non-empty and ends with the task it is stored for.\<close>

definition paths_end :: "memo \<Rightarrow> bool" where
  "paths_end memo = (\<forall>x r. memo x = Some r \<longrightarrow> snd r \<noteq> [] \<and> last (snd r) = x)"

text \<open>The list comprehension
  \<open>[find_longest_path(tache, memo) for tache in self.taches]\<close>.\<close>

fun all_paths :: "nat \<Rightarrow> store \<Rightarrow> ref list \<Rightarrow> memo \<Rightarrow> (exn + path_result list) \<times> memo" where
  "all_paths d h [] memo = (Inr [], memo)"
| "all_paths d h (t # ts) memo =
     (case find_longest_path d h t memo of
        (Inl e, memo') \<Rightarrow> (Inl e, memo')
      | (Inr r, memo') \<Rightarrow>
          (case all_paths d h ts memo' of
             (Inl e, memo'') \<Rightarrow> (Inl e, memo'')
           | (Inr rs, memo'') \<Rightarrow> (Inr (r # rs), memo'')))"

text \<open>Python's \<open>max(xs, key=k)\<close>: the first element whose key is maximal;
  \<open>ValueError\<close> on an empty sequence.\<close>

fun max_key_from :: "('a \<Rightarrow> int) \<Rightarrow> 'a \<Rightarrow> 'a list \<Rightarrow> 'a" where
  "max_key_from k best [] = best"
| "max_key_from k best (x # xs) =
     (if k x > k best then max_key_from k x xs else max_key_from k best xs)"

definition max_key :: "('a \<Rightarrow> int) \<Rightarrow> 'a list \<Rightarrow> exn + 'a" where
  "max_key k xs = (case xs of [] \<Rightarrow> Inl ValueError | x # ys \<Rightarrow> Inr (max_key_from k x ys))"

text \<open>What the search memoizes for a task, in terms of what is memoized for its
  dependencies: \<open>(0, [task])\<close> for a task without dependencies; otherwise the
  first pair of maximal length among \<open>(0, [])\<close> and the pairs of the dependencies
  in their order, with the span of the task added to its length and the task
  appended to its path.\<close>

definition memo_value :: "store \<Rightarrow> memo \<Rightarrow> ref \<Rightarrow> path_result" where
  "memo_value h memo u =
     (if dependances (h u) = [] then (0, [u])
      else (let best = max_key_from fst (0, []) (map (\<lambda>x. the (memo x)) (dependances (h u)))
            in (fst best + tache_span h u, snd best @ [u])))"

definition longest_path_spec :: "store \<Rightarrow> memo \<Rightarrow> bool" where
  "longest_path_spec h memo = (\<forall>u r. memo u = Some r \<longrightarrow> r = memo_value h memo u)"

text \<open>The dependencies of every memoized task are memoized.\<close>

definition deps_closed :: "store \<Rightarrow> memo \<Rightarrow> bool" where
  "deps_closed h memo = (\<forall>u. u \<in> dom memo \<longrightarrow> set (dependances (h u)) \<subseteq> dom memo)"

text \<open>\<open>Projet.calculer_chemin_critique\<close>. The assignment to
  \<open>self.chemin_critique\<close> is the last statement, so an exception leaves the project
  as it was; the method returns nothing.\<close>

definition calculer_chemin_critique :: "nat \<Rightarrow> store \<Rightarrow> projet \<Rightarrow> exn option \<times> projet" where
  "calculer_chemin_critique d h p =
     (case all_paths d h (taches p) Map.empty of
        (Inl e, memo) \<Rightarrow> (Some e, p)
      | (Inr paths, memo) \<Rightarrow>
          (case max_key fst paths of
             Inl e \<Rightarrow> (Some e, p)
           | Inr best \<Rightarrow> (None, p\<lparr>chemin_critique := snd best\<rparr>)))"

section \<open>Notifications\<close>

text \<open>The accented letters of the messages, as their UTF-8 bytes.\<close>

definition e_acute :: string where "e_acute = [CHR 0xC3, CHR 0xA9]"
definition a_grave :: string where "a_grave = [CHR 0xC3, CHR 0xA0]"
definition a_circ :: string where "a_circ = [CHR 0xC3, CHR 0xA2]"

definition notification_line :: "string \<Rightarrow> string \<Rightarrow> membre \<Rightarrow> string" where
  "notification_line via message destinataire =
     ''Notification envoy'' @ e_acute @ ''e '' @ a_grave @ '' '' @ membre_nom destinataire
       @ '' par '' @ via @ '': '' @ message"

fun envoyer_message ::
  "notification_strategy \<Rightarrow> string \<Rightarrow> membre \<Rightarrow> stdout \<Rightarrow> exn option \<times> stdout"
where
  "envoyer_message EmailNotificationStrategy message destinataire out =
     (None, out @ [notification_line ''email'' message destinataire])"
| "envoyer_message SMSNotificationStrategy message destinataire out =
     (None, out @ [notification_line ''SMS'' message destinataire])"
| "envoyer_message PushNotificationStrategy message destinataire out =
     (None, out @ [notification_line ''Push'' message destinataire])"
| "envoyer_message (UserStrategy f) message destinataire out = f message destinataire out"

text \<open>\<open>NotificationContext.notifier\<close>: a plain \<open>for\<close> loop with no
  \<open>try\<close>, so an exception of \<open>envoyer_message\<close> leaves the loop.\<close>

fun context_notifier ::
  "notification_context \<Rightarrow> string \<Rightarrow> membre list \<Rightarrow> stdout \<Rightarrow> exn option \<times> stdout"
where
  "context_notifier c message [] out = (None, out)"
| "context_notifier c message (destinataire # destinataires) out =
     (case envoyer_message (strategy c) message destinataire out of
        (Some e, out') \<Rightarrow> (Some e, out')
      | (None, out') \<Rightarrow> context_notifier c message destinataires out')"

section \<open>Projet\<close>

definition projet_init :: "string \<Rightarrow> string \<Rightarrow> datetime \<Rightarrow> datetime \<Rightarrow> real \<Rightarrow> projet" where
  "projet_init nom description debut fin b =
     \<lparr>projet_nom = nom, projet_description = description, projet_date_debut = debut,
      projet_date_fin = fin, budget = b, taches = [], equipe = \<lparr>membres = []\<rparr>,
      risques = [], jalons = [], version = 1, changements = [], chemin_critique = [],
      notification_context = None\<rparr>"

definition set_notification_strategy :: "notification_strategy \<Rightarrow> projet \<Rightarrow> projet" where
  "set_notification_strategy s p = p\<lparr>notification_context := Some \<lparr>strategy = s\<rparr>\<rparr>"

definition notifier :: "projet \<Rightarrow> string \<Rightarrow> stdout \<Rightarrow> exn option \<times> stdout" where
  "notifier p message out =
     (case notification_context p of
        None \<Rightarrow> (None, out)
      | Some c \<Rightarrow> context_notifier c message (membres (equipe p)) out)"

text \<open>Python's \<open>str\<close> of an \<open>int\<close>, as the f-strings use it.\<close>

fun str_nat :: "nat \<Rightarrow> string" where
  "str_nat n = (if n < 10 then [''0123456789'' ! n] else str_nat (n div 10) @ [''0123456789'' ! (n mod 10)])"

text \<open>Reading a string of decimal digits back as a number, to state what
  \<open>str_nat\<close> writes.\<close>

definition digit_value :: "char \<Rightarrow> nat" where
  "digit_value c = of_char c - 48"

definition nat_of_digits :: "string \<Rightarrow> nat" where
  "nat_of_digits cs = foldl (\<lambda>a c. 10 * a + digit_value c) 0 cs"

definition str_int :: "int \<Rightarrow> string" where
  "str_int i = (if i < 0 then ''-'' @ str_nat (nat (- i)) else str_nat (nat i))"

text \<open>A method of \<open>Projet\<close> that mutates the project and then notifies returns
  the exception of the notification, if any, with the project as mutated.\<close>

definition ajouter_membre_equipe :: "membre \<Rightarrow> projet \<Rightarrow> stdout \<Rightarrow> exn option \<times> projet \<times> stdout" where
  "ajouter_membre_equipe m p out =
     (let p' = p\<lparr>equipe := (equipe p)\<lparr>membres := membres (equipe p) @ [m]\<rparr>\<rparr>;
          (e, out') = notifier p' (membre_nom m @ '' a '' @ e_acute @ ''t'' @ e_acute
                        @ '' ajout'' @ e_acute @ '' '' @ a_grave @ '' l'' @ [CHR 0x27]
                        @ e_acute @ ''quipe'') out
      in (e, p', out'))"

definition ajouter_membre :: "membre \<Rightarrow> projet \<Rightarrow> stdout \<Rightarrow> exn option \<times> projet \<times> stdout" where
  "ajouter_membre m p out = ajouter_membre_equipe m p out"

definition ajouter_tache :: "store \<Rightarrow> ref \<Rightarrow> projet \<Rightarrow> stdout \<Rightarrow> exn option \<times> projet \<times> stdout" where
  "ajouter_tache h t p out =
     (let p' = p\<lparr>taches := taches p @ [t]\<rparr>;
          (e, out') = notifier p' (''Nouvelle t'' @ a_circ @ ''che ajout'' @ e_acute @ ''e: ''
                        @ tache_nom (h t)) out
      in (e, p', out'))"

text \<open>The f-string of \<open>definir_budget\<close> prints a float; \<open>float_str\<close> stands for
  Python's conversion of a float to text.\<close>

definition definir_budget ::
  "(real \<Rightarrow> string) \<Rightarrow> real \<Rightarrow> projet \<Rightarrow> stdout \<Rightarrow> exn option \<times> projet \<times> stdout" where
  "definir_budget float_str b p out =
     (let p' = p\<lparr>budget := b\<rparr>;
          (e, out') = notifier p' (''Le budget du projet a '' @ e_acute @ ''t'' @ e_acute
                        @ '' d'' @ e_acute @ ''fini '' @ a_grave @ '' '' @ float_str (budget p')
                        @ '' Unit'' @ e_acute @ '' Mon'' @ e_acute @ ''taire'') out
      in (e, p', out'))"

definition ajouter_risque :: "risque \<Rightarrow> projet \<Rightarrow> stdout \<Rightarrow> exn option \<times> projet \<times> stdout" where
  "ajouter_risque r p out =
     (let p' = p\<lparr>risques := risques p @ [r]\<rparr>;
          (e, out') = notifier p' (''Nouveau risque ajout'' @ e_acute @ '': ''
                        @ risque_description r) out
      in (e, p', out'))"

definition ajouter_jalon :: "jalon \<Rightarrow> projet \<Rightarrow> stdout \<Rightarrow> exn option \<times> projet \<times> stdout" where
  "ajouter_jalon j p out =
     (let p' = p\<lparr>jalons := jalons p @ [j]\<rparr>;
          (e, out') = notifier p' (''Nouveau jalon ajout'' @ e_acute @ '': '' @ jalon_nom j) out
      in (e, p', out'))"

text \<open>\<open>Changement.__init__\<close> reads the clock; \<open>now\<close> is what
  \<open>datetime.now()\<close> returns at that call.\<close>

definition changement_init :: "datetime \<Rightarrow> string \<Rightarrow> int \<Rightarrow> changement" where
  "changement_init now description v =
     \<lparr>changement_description = description, changement_version = v, changement_date = now\<rparr>"

definition changement_message :: "string \<Rightarrow> int \<Rightarrow> string" where
  "changement_message description v =
     ''Changement enregistr'' @ e_acute @ '': '' @ description @ '' (version '' @ str_int v @ '')''"

definition enregistrer_changement ::
  "datetime \<Rightarrow> string \<Rightarrow> projet \<Rightarrow> stdout \<Rightarrow> exn option \<times> projet \<times> stdout" where
  "enregistrer_changement now description p out =
     (let c = changement_init now description (version p);
          p1 = p\<lparr>changements := changements p @ [c]\<rparr>;
          p2 = p1\<lparr>version := version p1 + 1\<rparr>;
          (e, out') = notifier p2 (changement_message description (version p2)) out
      in (e, p2, out'))"

text \<open>A call of a method of \<open>Projet\<close> from outside. The calls that read a task
  carry the store as it is at that call (tasks may be mutated between calls), the
  call of \<open>enregistrer_changement\<close> carries the time of the clock, and the call of
  \<open>calculer_chemin_critique\<close> the call depth that is left.\<close>

datatype call =
    Ajouter_membre membre
  | Set_notification_strategy notification_strategy
  | Ajouter_tache store ref
  | Ajouter_membre_equipe membre
  | Definir_budget real
  | Ajouter_risque risque
  | Ajouter_jalon jalon
  | Enregistrer_changement datetime string
  | Calculer_chemin_critique nat store

fun call_method ::
  "(real \<Rightarrow> string) \<Rightarrow> call \<Rightarrow> projet \<Rightarrow> stdout \<Rightarrow> exn option \<times> projet \<times> stdout" where
  "call_method fs (Ajouter_membre m) p out = ajouter_membre m p out"
| "call_method fs (Set_notification_strategy s) p out = (None, set_notification_strategy s p, out)"
| "call_method fs (Ajouter_tache h t) p out = ajouter_tache h t p out"
| "call_method fs (Ajouter_membre_equipe m) p out = ajouter_membre_equipe m p out"
| "call_method fs (Definir_budget b) p out = definir_budget fs b p out"
| "call_method fs (Ajouter_risque r) p out = ajouter_risque r p out"
| "call_method fs (Ajouter_jalon j) p out = ajouter_jalon j p out"
| "call_method fs (Enregistrer_changement now description) p out =
     enregistrer_changement now description p out"
| "call_method fs (Calculer_chemin_critique d h) p out =
     (case calculer_chemin_critique d h p of (e, p') \<Rightarrow> (e, p', out))"

text \<open>A sequence of calls on one project; a caller that catches the exception of
  a call goes on with the project as that call left it.\<close>

fun call_methods :: "(real \<Rightarrow> string) \<Rightarrow> call list \<Rightarrow> projet \<Rightarrow> stdout \<Rightarrow> projet \<times> stdout" where
  "call_methods fs [] p out = (p, out)"
| "call_methods fs (c # cs) p out =
     (case call_method fs c p out of (e, p', out') \<Rightarrow> call_methods fs cs p' out')"

declare str_nat.simps [simp del]

section \<open>Example projects\<close>

definition modou :: membre where
  "modou = \<lparr>membre_nom = ''Modou'', membre_role = ''Chef de projet''\<rparr>"

definition christian :: membre where
  "christian = \<lparr>membre_nom = ''Christian'', membre_role = ''D'' @ e_acute @ ''veloppeur''\<rparr>"

text \<open>A task named \<open>nom\<close> that starts on day \<open>a\<close> and ends on day \<open>b\<close>,
  constructed with a list of dependencies of its own, of identity \<open>i\<close>.\<close>

definition tache_jours :: "nat \<Rightarrow> string \<Rightarrow> int \<Rightarrow> int \<Rightarrow> ref list \<Rightarrow> tache" where
  "tache_jours i nom a b deps =
     tache_init nom [] (days a) (days b) modou ''En cours'' (Some (i, deps)) i"

text \<open>In the example stores the list of the task at reference \<open>r\<close> has the
  identity \<open>r\<close>, except where two tasks are built on one list.\<close>

definition empty_store :: store where
  "empty_store = (\<lambda>r. tache_jours r [] 0 0 [])"

text \<open>The two tasks of the module's own script: the first from 1 January to
  31 January 2024 (30 days), the second from 1 February to 30 June 2024 (150
  days) and depending on the first. Days are counted from 1 January 2024.\<close>

definition script_store :: store where
  "script_store = empty_store
     (1 := tache_jours 1 ''Analyse des besoins'' 0 30 [],
      2 := tache_jours 2 (''D'' @ e_acute @ ''veloppement'') 31 181 [1])"

text \<open>The diamond: A (10 days), B (5 days, after A), C (20 days, after A),
  D (1 day, after B and C), at the references 1 to 4.\<close>

definition diamond_store :: store where
  "diamond_store = empty_store
     (1 := tache_jours 1 ''A'' 0 10 [],
      2 := tache_jours 2 ''B'' 10 15 [1],
      3 := tache_jours 3 ''C'' 10 30 [1],
      4 := tache_jours 4 ''D'' 30 31 [2, 3])"

text \<open>Two tasks that depend on each other, and a third one that is unrelated.\<close>

definition cycle_store :: store where
  "cycle_store = empty_store
     (1 := tache_jours 1 ''A'' 0 10 [2],
      2 := tache_jours 2 ''B'' 10 15 [1],
      3 := tache_jours 3 ''U'' 0 7 [])"

text \<open>A chain of dependencies from task 3 to task 2 to task 1, the first of them
  added with \<open>ajouter_dependance\<close>; a project will register only task 3.\<close>

definition chain_store :: store where
  "chain_store = ajouter_dependance 3 2 (empty_store
     (1 := tache_jours 1 ''A0'' 0 3 [],
      2 := tache_jours 2 ''A'' 3 13 [1],
      3 := tache_jours 3 ''B'' 13 18 []))"

text \<open>Two tasks, at the references 2 and 3, constructed on one list of dependencies,
  of identity 2.\<close>

definition shared_store :: store where
  "shared_store = empty_store
     (1 := tache_jours 1 ''A'' 0 10 [],
      2 := tache_jours 2 ''B'' 10 15 [1],
      3 := tache_jours 2 ''C'' 10 30 [1],
      4 := tache_jours 4 ''D'' 0 2 [])"

definition projet_vide :: projet where
  "projet_vide = projet_init ''MEVC'' ''Projet operationel de fin de cycle'' (days 27) (days 120) 100000"

text \<open>A project at version 41 with a team of two and the email strategy.\<close>

definition projet_email :: projet where
  "projet_email = projet_vide
     \<lparr>equipe := \<lparr>membres = [modou, christian]\<rparr>, version := 41,
      notification_context := Some \<lparr>strategy = EmailNotificationStrategy\<rparr>\<rparr>"

definition projet_taches :: "ref list \<Rightarrow> projet" where
  "projet_taches ts = projet_vide\<lparr>taches := ts\<rparr>"

text \<open>A strategy of a user that prints the name of the recipient and then
  raises for the recipient called \<open>Modou\<close>.\<close>

definition failing_strategy :: notification_strategy where
  "failing_strategy = UserStrategy (\<lambda>message destinataire out.
     (if membre_nom destinataire = ''Modou'' then Some (OtherException ''DeliveryError'') else None,
      out @ [membre_nom destinataire]))"


section \<open>Properties of the longest-path search\<close>

lemma flp_error:
  "fst (find_longest_path d h t memo) = Inl e \<Longrightarrow> e = RecursionError"
  "fst (find_longest_path_deps d h ds acc memo) = Inl e \<Longrightarrow> e = RecursionError"
  by (induction d h t memo and d h ds acc memo rule: find_longest_path_find_longest_path_deps.induct)
     (auto split: option.splits prod.splits sum.splits if_splits)

lemma flp_mono:
  "memo \<subseteq>\<^sub>m snd (find_longest_path d h t memo)"
  "memo \<subseteq>\<^sub>m snd (find_longest_path_deps d h ds acc memo)"
proof (induction d h t memo and d h ds acc memo rule: find_longest_path_find_longest_path_deps.induct)
  case (1 h t memo)
  then show ?case by simp
next
  case (2 d h t memo)
  show ?case
  proof (cases "memo t")
    case None
    show ?thesis
    proof (cases "dependances (h t) = []")
      case True
      with None show ?thesis by (auto simp: map_le_def)
    next
      case False
      with None 2 have le: "memo \<subseteq>\<^sub>m snd (find_longest_path_deps d h (dependances (h t)) (0, []) memo)"
        by simp
      obtain r m where eq: "find_longest_path_deps d h (dependances (h t)) (0, []) memo = (r, m)"
        by (cases "find_longest_path_deps d h (dependances (h t)) (0, []) memo")
      from le eq have "memo \<subseteq>\<^sub>m m" by simp
      with None have "memo \<subseteq>\<^sub>m m(t \<mapsto> v)" for v
        by (auto simp: map_le_def dom_def)
      with None False eq \<open>memo \<subseteq>\<^sub>m m\<close> show ?thesis
        by (auto split: sum.splits prod.splits)
    qed
  next
    case (Some r)
    then show ?thesis by simp
  qed
next
  case (3 d h acc memo)
  then show ?case by simp
next
  case (4 d h dep deps acc memo)
  obtain r m where eq: "find_longest_path d h dep memo = (r, m)"
    by (cases "find_longest_path d h dep memo")
  with 4 have le: "memo \<subseteq>\<^sub>m m" by simp
  show ?case
  proof (cases r)
    case (Inl e)
    with eq le show ?thesis by simp
  next
    case (Inr pr)
    obtain dl dp where pr: "pr = (dl, dp)" by (cases pr)
    show ?thesis
    proof (cases "dl > fst acc")
      case True
      from 4(2)[OF eq[symmetric] Inr pr[symmetric] True]
      have "m \<subseteq>\<^sub>m snd (find_longest_path_deps d h deps (dl, dp) m)" by simp
      with le True eq Inr pr show ?thesis by (auto intro: map_le_trans)
    next
      case False
      from 4(3)[OF eq[symmetric] Inr pr[symmetric] False]
      have "m \<subseteq>\<^sub>m snd (find_longest_path_deps d h deps acc m)" by simp
      with le False eq Inr pr show ?thesis by (auto intro: map_le_trans)
    qed
  qed
qed


lemma paths_end_upd_if:
  "paths_end m \<Longrightarrow> paths_end (\<lambda>a. if a = t then Some (n, ps @ [t]) else m a)"
  by (simp add: paths_end_def)

lemma flp_last:
  "paths_end memo \<longrightarrow>
   paths_end (snd (find_longest_path d h t memo)) \<and>
   (\<forall>r. fst (find_longest_path d h t memo) = Inr r \<longrightarrow> snd r \<noteq> [] \<and> last (snd r) = t)"
  "paths_end memo \<longrightarrow> paths_end (snd (find_longest_path_deps d h ds acc memo))"
proof (induction d h t memo and d h ds acc memo rule: find_longest_path_find_longest_path_deps.induct)
  case (1 h t memo)
  then show ?case by simp
next
  case (2 d h t memo)
  show ?case
  proof (cases "memo t")
    case None
    show ?thesis
    proof (cases "dependances (h t) = []")
      case True
      with None show ?thesis by (simp add: paths_end_def)
    next
      case False
      obtain r m where eq: "find_longest_path_deps d h (dependances (h t)) (0, []) memo = (r, m)"
        by (cases "find_longest_path_deps d h (dependances (h t)) (0, []) memo")
      from 2[OF None False] eq have m: "paths_end memo \<longrightarrow> paths_end m" by simp
      show ?thesis
      proof (cases r)
        case (Inl e)
        with None False eq m show ?thesis by simp
      next
        case (Inr pr)
        obtain ml mp where pr: "pr = (ml, mp)" by (cases pr)
        from None False eq Inr pr m show ?thesis by (simp add: paths_end_upd_if)
      qed
    qed
  next
    case (Some r)
    then show ?thesis by (cases r) (auto simp: paths_end_def)
  qed
next
  case (3 d h acc memo)
  then show ?case by simp
next
  case (4 d h dep deps acc memo)
  obtain r m where eq: "find_longest_path d h dep memo = (r, m)"
    by (cases "find_longest_path d h dep memo")
  from 4(1) eq have m: "paths_end memo \<longrightarrow> paths_end m" by simp
  show ?case
  proof (cases r)
    case (Inl e)
    with eq m show ?thesis by simp
  next
    case (Inr pr)
    obtain dl dp where pr: "pr = (dl, dp)" by (cases pr)
    show ?thesis
    proof (cases "dl > fst acc")
      case True
      from 4(2)[OF eq[symmetric] Inr pr[symmetric] True] m True eq Inr pr show ?thesis by simp
    next
      case False
      from 4(3)[OF eq[symmetric] Inr pr[symmetric] False] m False eq Inr pr show ?thesis by simp
    qed
  qed
qed

lemma dep_rel_leaf: "dependances (h t) = [] \<Longrightarrow> (t, u) \<notin> (dep_rel h)\<^sup>+"
  by (auto simp: dep_rel_def dest: tranclD)

lemma on_cycle_leaf: "dependances (h t) = [] \<Longrightarrow> \<not> on_cycle h t"
  unfolding on_cycle_def
  by (metis dep_rel_leaf rtranclD)

lemma on_cycle_dep: "on_cycle h t \<Longrightarrow> \<exists>x \<in> set (dependances (h t)). on_cycle h x"
proof -
  assume "on_cycle h t"
  then obtain u where tu: "(t, u) \<in> (dep_rel h)\<^sup>*" and uu: "(u, u) \<in> (dep_rel h)\<^sup>+"
    by (auto simp: on_cycle_def)
  from tu uu have "(t, u) \<in> (dep_rel h)\<^sup>+" by (metis rtranclD)
  then obtain x where tx: "(t, x) \<in> dep_rel h" and xu: "(x, u) \<in> (dep_rel h)\<^sup>*"
    by (metis tranclD)
  with uu have "on_cycle h x" by (auto simp: on_cycle_def)
  with tx show ?thesis by (auto simp: dep_rel_def)
qed

lemma no_cycle_in_upd_if:
  "no_cycle_in h m \<Longrightarrow> \<not> on_cycle h t \<Longrightarrow> no_cycle_in h (\<lambda>a. if a = t then Some v else m a)"
  by (auto simp: no_cycle_in_def dom_def)

lemma no_cycle_in_upd:
  "no_cycle_in h m \<Longrightarrow> \<not> on_cycle h t \<Longrightarrow> no_cycle_in h (m(t \<mapsto> v))"
  by (auto simp: no_cycle_in_def dom_def)

lemma flp_cycle:
  "no_cycle_in h memo \<longrightarrow>
   no_cycle_in h (snd (find_longest_path d h t memo)) \<and>
   (on_cycle h t \<longrightarrow> (\<forall>r. fst (find_longest_path d h t memo) \<noteq> Inr r))"
  "no_cycle_in h memo \<longrightarrow>
   no_cycle_in h (snd (find_longest_path_deps d h ds acc memo)) \<and>
   ((\<exists>x\<in>set ds. on_cycle h x) \<longrightarrow> (\<forall>r. fst (find_longest_path_deps d h ds acc memo) \<noteq> Inr r))"
proof (induction d h t memo and d h ds acc memo rule: find_longest_path_find_longest_path_deps.induct)
  case (1 h t memo)
  then show ?case by simp
next
  case (2 d h t memo)
  show ?case
  proof (cases "memo t")
    case None
    show ?thesis
    proof (cases "dependances (h t) = []")
      case True
      with None show ?thesis by (simp add: on_cycle_leaf no_cycle_in_upd no_cycle_in_upd_if)
    next
      case False
      obtain r m where eq: "find_longest_path_deps d h (dependances (h t)) (0, []) memo = (r, m)"
        by (cases "find_longest_path_deps d h (dependances (h t)) (0, []) memo")
      from 2[OF None False] eq
      have m: "no_cycle_in h memo \<longrightarrow> no_cycle_in h m \<and>
        ((\<exists>x\<in>set (dependances (h t)). on_cycle h x) \<longrightarrow> (\<forall>r'. r \<noteq> Inr r'))" by simp
      show ?thesis
      proof (cases r)
        case (Inl e)
        with None False eq m show ?thesis by simp
      next
        case (Inr pr)
        obtain ml mp where pr: "pr = (ml, mp)" by (cases pr)
        from m Inr have "no_cycle_in h memo \<longrightarrow> \<not> on_cycle h t"
          using on_cycle_dep[of h t] by blast
        with None False eq Inr pr m show ?thesis
          by (simp add: no_cycle_in_upd no_cycle_in_upd_if)
      qed
    qed
  next
    case (Some r)
    then show ?thesis by (auto simp: no_cycle_in_def)
  qed
next
  case (3 d h acc memo)
  then show ?case by simp
next
  case (4 d h dep deps acc memo)
  obtain r m where eq: "find_longest_path d h dep memo = (r, m)"
    by (cases "find_longest_path d h dep memo")
  from 4(1) eq have m: "no_cycle_in h memo \<longrightarrow> no_cycle_in h m \<and>
     (on_cycle h dep \<longrightarrow> (\<forall>r'. r \<noteq> Inr r'))" by simp
  show ?case
  proof (cases r)
    case (Inl e)
    with eq m show ?thesis by simp
  next
    case (Inr pr)
    obtain dl dp where pr: "pr = (dl, dp)" by (cases pr)
    show ?thesis
    proof (cases "dl > fst acc")
      case True
      from 4(2)[OF eq[symmetric] Inr pr[symmetric] True] m True eq Inr pr show ?thesis by simp
    next
      case False
      from 4(3)[OF eq[symmetric] Inr pr[symmetric] False] m False eq Inr pr show ?thesis by simp
    qed
  qed
qed

lemma flp_total:
  "(\<forall>a b. b \<in> set (dependances (h a)) \<longrightarrow> rk b < (rk a :: nat)) \<longrightarrow> rk t < d \<longrightarrow>
   (\<exists>r. fst (find_longest_path d h t memo) = Inr r)"
  "(\<forall>a b. b \<in> set (dependances (h a)) \<longrightarrow> rk b < (rk a :: nat)) \<longrightarrow> (\<forall>x\<in>set ds. rk x < d) \<longrightarrow>
   (\<exists>r. fst (find_longest_path_deps d h ds acc memo) = Inr r)"
proof (induction d h t memo and d h ds acc memo rule: find_longest_path_find_longest_path_deps.induct)
  case (1 h t memo)
  then show ?case by simp
next
  case (2 d h t memo)
  show ?case
  proof (cases "memo t")
    case None
    show ?thesis
    proof (cases "dependances (h t) = []")
      case True
      with None show ?thesis by simp
    next
      case False
      obtain r m where eq: "find_longest_path_deps d h (dependances (h t)) (0, []) memo = (r, m)"
        by (cases "find_longest_path_deps d h (dependances (h t)) (0, []) memo")
      show ?thesis
      proof (intro impI)
        assume rk: "\<forall>a b. b \<in> set (dependances (h a)) \<longrightarrow> rk b < rk a" and lt: "rk t < Suc d"
        then have "\<forall>x\<in>set (dependances (h t)). rk x < d" by fastforce
        with 2[OF None False] rk eq obtain pr where "r = Inr pr" by auto
        with None False eq show "\<exists>r. fst (find_longest_path (Suc d) h t memo) = Inr r"
          by (cases pr) simp
      qed
    qed
  next
    case (Some r)
    then show ?thesis by simp
  qed
next
  case (3 d h acc memo)
  then show ?case by simp
next
  case (4 d h dep deps acc memo)
  obtain r m where eq: "find_longest_path d h dep memo = (r, m)"
    by (cases "find_longest_path d h dep memo")
  show ?case
  proof (intro impI)
    assume rk: "\<forall>a b. b \<in> set (dependances (h a)) \<longrightarrow> rk b < rk a"
      and lt: "\<forall>x\<in>set (dep # deps). rk x < d"
    with 4(1) eq obtain pr where Inr: "r = Inr pr" by auto
    obtain dl dp where pr: "pr = (dl, dp)" by (cases pr)
    show "\<exists>r. fst (find_longest_path_deps d h (dep # deps) acc memo) = Inr r"
    proof (cases "dl > fst acc")
      case True
      from 4(2)[OF eq[symmetric] Inr pr[symmetric] True] rk lt True eq Inr pr show ?thesis by simp
    next
      case False
      from 4(3)[OF eq[symmetric] Inr pr[symmetric] False] rk lt False eq Inr pr show ?thesis by simp
    qed
  qed
qed



lemma all_paths_error: "fst (all_paths d h ts memo) = Inl e \<Longrightarrow> e = RecursionError"
proof (induction ts arbitrary: memo)
  case Nil
  then show ?case by simp
next
  case (Cons t ts)
  obtain r m where eq: "find_longest_path d h t memo = (r, m)"
    by (cases "find_longest_path d h t memo")
  show ?case
  proof (cases r)
    case (Inl e')
    with eq Cons.prems flp_error(1)[of d h t memo e'] show ?thesis by simp
  next
    case (Inr pr)
    with eq Cons.prems Cons.IH[of m] show ?thesis
      by (auto split: prod.splits sum.splits)
  qed
qed

lemma all_paths_mono: "memo \<subseteq>\<^sub>m snd (all_paths d h ts memo)"
proof (induction ts arbitrary: memo)
  case Nil
  then show ?case by simp
next
  case (Cons t ts)
  obtain r m where eq: "find_longest_path d h t memo = (r, m)"
    by (cases "find_longest_path d h t memo")
  with flp_mono(1)[of memo d h t] have le: "memo \<subseteq>\<^sub>m m" by simp
  from Cons.IH[of m] le have "memo \<subseteq>\<^sub>m snd (all_paths d h ts m)"
    by (rule map_le_trans[rotated])
  with eq le show ?case
    by (auto split: prod.splits sum.splits)
qed

lemma all_paths_append:
  "snd (all_paths d h ts1 memo) \<subseteq>\<^sub>m snd (all_paths d h (ts1 @ ts2) memo)"
proof (induction ts1 arbitrary: memo)
  case Nil
  then show ?case by (simp add: all_paths_mono)
next
  case (Cons t ts)
  obtain r m where eq: "find_longest_path d h t memo = (r, m)"
    by (cases "find_longest_path d h t memo")
  show ?case
  proof (cases r)
    case (Inl e)
    with eq show ?thesis by simp
  next
    case (Inr pr)
    with eq Cons.IH[of m] show ?thesis
      by (auto split: prod.splits sum.splits)
  qed
qed

lemma all_paths_last:
  "paths_end memo \<Longrightarrow>
   paths_end (snd (all_paths d h ts memo)) \<and>
   (\<forall>rs. fst (all_paths d h ts memo) = Inr rs \<longrightarrow>
      list_all2 (\<lambda>t r. snd r \<noteq> [] \<and> last (snd r) = t) ts rs)"
proof (induction ts arbitrary: memo)
  case Nil
  then show ?case by simp
next
  case (Cons t ts)
  obtain r m where eq: "find_longest_path d h t memo = (r, m)"
    by (cases "find_longest_path d h t memo")
  from flp_last(1)[of memo d h t] Cons.prems eq
  have m: "paths_end m" and r: "\<And>pr. r = Inr pr \<Longrightarrow> snd pr \<noteq> [] \<and> last (snd pr) = t"
    by auto
  show ?case
  proof (cases r)
    case (Inl e)
    with eq m show ?thesis by simp
  next
    case (Inr pr)
    with eq Cons.IH[OF m] r[OF Inr] show ?thesis
      by (auto split: prod.splits sum.splits)
  qed
qed

lemma all_paths_cycle:
  "no_cycle_in h memo \<Longrightarrow> \<exists>t\<in>set ts. on_cycle h t \<Longrightarrow> isl (fst (all_paths d h ts memo))"
proof (induction ts arbitrary: memo)
  case Nil
  then show ?case by simp
next
  case (Cons t ts)
  obtain r m where eq: "find_longest_path d h t memo = (r, m)"
    by (cases "find_longest_path d h t memo")
  from flp_cycle(1)[of h memo d t] Cons.prems(1)
  have "no_cycle_in h (snd (find_longest_path d h t memo)) \<and>
    (on_cycle h t \<longrightarrow> (\<forall>r. fst (find_longest_path d h t memo) \<noteq> Inr r))" by blast
  then have m: "no_cycle_in h m" and r: "\<And>pr. on_cycle h t \<Longrightarrow> r \<noteq> Inr pr"
    unfolding eq fst_conv snd_conv by blast+
  show ?case
  proof (cases r)
    case (Inl e)
    with eq show ?thesis by simp
  next
    case (Inr pr)
    with r[of pr] have "\<not> on_cycle h t" by blast
    with Cons.prems(2) have "\<exists>t\<in>set ts. on_cycle h t" by simp
    from Cons.IH[OF m this] have "isl (fst (all_paths d h ts m))" .
    then obtain e where "fst (all_paths d h ts m) = Inl e" by (auto simp: isl_def)
    with eq Inr show ?thesis
      by (cases "all_paths d h ts m") simp
  qed
qed

lemma all_paths_total:
  "\<forall>a b. b \<in> set (dependances (h a)) \<longrightarrow> rk b < (rk a :: nat) \<Longrightarrow> \<forall>t\<in>set ts. rk t < d \<Longrightarrow>
   \<exists>rs. fst (all_paths d h ts memo) = Inr rs \<and> length rs = length ts"
proof (induction ts arbitrary: memo)
  case Nil
  then show ?case by simp
next
  case (Cons t ts)
  obtain r m where eq: "find_longest_path d h t memo = (r, m)"
    by (cases "find_longest_path d h t memo")
  from flp_total(1)[of h rk t d memo] Cons.prems eq obtain pr where Inr: "r = Inr pr"
    by auto
  from Cons.IH[of m] Cons.prems obtain rs where "fst (all_paths d h ts m) = Inr rs" "length rs = length ts"
    by auto
  with eq Inr show ?case
    by (auto split: prod.splits sum.splits)
qed

lemma max_key_from_mem: "max_key_from k best xs \<in> set (best # xs)"
  by (induction xs arbitrary: best) auto

lemma max_key_from_max: "x \<in> set (best # xs) \<Longrightarrow> k x \<le> k (max_key_from k best xs)"
proof (induction xs arbitrary: best x)
  case Nil
  then show ?case by simp
next
  case (Cons y ys)
  have mono: "k b \<le> k (max_key_from k b ys)" for b
    using Cons.IH[of b b] by simp
  from Cons.prems consider "x = best" | "x = y" | "x \<in> set ys" by auto
  then show ?case
  proof cases
    case 1
    then show ?thesis using mono[of best] mono[of y] by (auto intro: order_trans)
  next
    case 2
    then show ?thesis using mono[of best] mono[of y] by (auto intro: order_trans)
  next
    case 3
    then show ?thesis using Cons.IH[of x y] Cons.IH[of x best] by auto
  qed
qed

lemma no_cycle_in_empty: "no_cycle_in h Map.empty"
  by (simp add: no_cycle_in_def)

lemma paths_end_empty: "paths_end Map.empty"
  by (simp add: paths_end_def)

lemma calculer_cycle:
  assumes "t \<in> set (taches p)" "on_cycle h t"
  shows "calculer_chemin_critique d h p = (Some RecursionError, p)"
proof -
  obtain r m where eq: "all_paths d h (taches p) Map.empty = (r, m)"
    by (cases "all_paths d h (taches p) Map.empty")
  from all_paths_cycle[where h=h and ts="taches p" and d=d and memo=Map.empty, OF no_cycle_in_empty] assms eq
  have "isl r" by auto
  then obtain e where e: "r = Inl e" by (auto simp: isl_def)
  with all_paths_error[of d h "taches p" Map.empty e] eq have "e = RecursionError" by simp
  with e eq show ?thesis by (simp add: calculer_chemin_critique_def)
qed

lemma calculer_frame:
  "(snd (calculer_chemin_critique d h p))\<lparr>chemin_critique := chemin_critique p\<rparr> = p"
  by (auto simp: calculer_chemin_critique_def split: prod.splits sum.splits)

lemma calculer_error_unchanged:
  "fst (calculer_chemin_critique d h p) \<noteq> None \<Longrightarrow> snd (calculer_chemin_critique d h p) = p"
  by (auto simp: calculer_chemin_critique_def split: prod.splits sum.splits)

lemma calculer_errors:
  "fst (calculer_chemin_critique d h p) = Some e \<Longrightarrow> e = RecursionError \<or> e = ValueError"
proof -
  assume a: "fst (calculer_chemin_critique d h p) = Some e"
  obtain r m where eq: "all_paths d h (taches p) Map.empty = (r, m)"
    by (cases "all_paths d h (taches p) Map.empty")
  show ?thesis
  proof (cases r)
    case (Inl e')
    with all_paths_error[of d h "taches p" Map.empty e'] eq a show ?thesis
      by (simp add: calculer_chemin_critique_def)
  next
    case (Inr rs)
    with eq a show ?thesis
      by (cases rs) (auto simp: calculer_chemin_critique_def max_key_def)
  qed
qed



subsection \<open>Which maximum is selected\<close>

text \<open>The result of a successful call is what is memoized for the task; the loop
  over the dependencies returns the first pair of maximal length among the initial
  pair \<open>(0, [])\<close> followed by the pairs memoized for the dependencies, in their
  order; and \<open>max\<close> with a key returns the first element of maximal key.\<close>

lemma find_longest_path_result_memo:
  "fst (find_longest_path d h t memo) = Inr r \<Longrightarrow> snd (find_longest_path d h t memo) t = Some r"
proof (cases d)
  case 0
  assume "fst (find_longest_path d h t memo) = Inr r"
  with 0 show ?thesis by simp
next
  case (Suc d')
  assume a: "fst (find_longest_path d h t memo) = Inr r"
  obtain x m where eq: "find_longest_path_deps d' h (dependances (h t)) (0, []) memo = (x, m)"
    by (cases "find_longest_path_deps d' h (dependances (h t)) (0, []) memo")
  show ?thesis
  proof (cases x)
    case (Inl e)
    with a Suc eq show ?thesis by (auto split: option.splits if_splits)
  next
    case (Inr pr)
    with a Suc eq show ?thesis by (cases pr) (auto split: option.splits if_splits)
  qed
qed

lemma find_longest_path_deps_result:
  "find_longest_path_deps d h deps acc memo = (Inr r, memo') \<Longrightarrow>
   r = max_key_from fst acc (map (\<lambda>x. the (memo' x)) deps)"
proof (induction deps arbitrary: acc memo)
  case Nil
  then show ?case by simp
next
  case (Cons dep deps)
  obtain x m where eq: "find_longest_path d h dep memo = (x, m)"
    by (cases "find_longest_path d h dep memo")
  from Cons.prems eq obtain dl dp where x: "x = Inr (dl, dp)"
    by (cases x) auto
  from find_longest_path_result_memo[of d h dep memo "(dl, dp)"] eq x
  have md: "m dep = Some (dl, dp)" by simp
  let ?acc = "if dl > fst acc then (dl, dp) else acc"
  from Cons.prems eq x have rest: "find_longest_path_deps d h deps ?acc m = (Inr r, memo')"
    by (simp split: if_splits)
  from flp_mono(2)[of m d h deps ?acc] rest have "m \<subseteq>\<^sub>m memo'" by simp
  with md have "memo' dep = Some (dl, dp)" by (auto simp: map_le_def dom_def)
  with Cons.IH[OF rest] show ?case by simp
qed

lemma max_key_from_first:
  "\<exists>ys zs. best # xs = ys @ max_key_from k best xs # zs \<and>
     (\<forall>y\<in>set ys. k y < k (max_key_from k best xs)) \<and>
     (\<forall>z\<in>set zs. k z \<le> k (max_key_from k best xs))"
proof (induction xs arbitrary: best)
  case Nil
  have "[best] = [] @ max_key_from k best [] # [] \<and>
     (\<forall>y\<in>set []. k y < k (max_key_from k best [])) \<and>
     (\<forall>z\<in>set []. k z \<le> k (max_key_from k best []))" by simp
  then show ?case by blast
next
  case (Cons x xs)
  show ?case
  proof (cases "k x > k best")
    case True
    then have r: "max_key_from k best (x # xs) = max_key_from k x xs" by simp
    from Cons.IH[of x] obtain ys zs where
      s: "x # xs = ys @ max_key_from k x xs # zs"
      and l: "\<forall>y\<in>set ys. k y < k (max_key_from k x xs)"
      and g: "\<forall>z\<in>set zs. k z \<le> k (max_key_from k x xs)" by blast
    from max_key_from_max[of x x xs k] True have kb: "k best < k (max_key_from k x xs)" by simp
    have e: "best # x # xs = (best # ys) @ max_key_from k x xs # zs"
      by (subst s) simp
    from l kb have l': "\<forall>y\<in>set (best # ys). k y < k (max_key_from k x xs)" by simp
    from e l' g show ?thesis unfolding r by blast
  next
    case False
    then have r: "max_key_from k best (x # xs) = max_key_from k best xs" by simp
    from Cons.IH[of best] obtain ys zs where
      s: "best # xs = ys @ max_key_from k best xs # zs"
      and l: "\<forall>y\<in>set ys. k y < k (max_key_from k best xs)"
      and g: "\<forall>z\<in>set zs. k z \<le> k (max_key_from k best xs)" by blast
    show ?thesis
    proof (cases ys)
      case Nil
      with s have "best # xs = max_key_from k best xs # zs" by auto
      then have b: "max_key_from k best xs = best" and z: "zs = xs" by (metis list.inject)+
      have e: "best # x # xs = [] @ max_key_from k best xs # (x # xs)" by (simp add: b)
      from False g b z have g': "\<forall>z\<in>set (x # xs). k z \<le> k (max_key_from k best xs)" by simp
      have l': "\<forall>y\<in>set []. k y < k (max_key_from k best xs)" by simp
      from e l' g' show ?thesis unfolding r by blast
    next
      case (Cons b ys')
      with s have "best # xs = b # (ys' @ max_key_from k best xs # zs)" by auto
      then have b: "b = best" and xs: "xs = ys' @ max_key_from k best xs # zs"
        by (metis list.inject)+
      from l Cons b have kb: "k best < k (max_key_from k best xs)" by simp
      with False have kx: "k x < k (max_key_from k best xs)" by simp
      have e: "best # x # xs = (best # x # ys') @ max_key_from k best xs # zs"
        by (subst xs) simp
      from l Cons kb kx b have l': "\<forall>y\<in>set (best # x # ys'). k y < k (max_key_from k best xs)"
        by simp
      from e l' g show ?thesis unfolding r by blast
    qed
  qed
qed


subsection \<open>What is memoized\<close>

text \<open>Whatever the search has memoized obeys \<open>memo_value\<close>, and the dependencies
  of a memoized task are memoized; a call memoizes only tasks that can be reached
  from its task.\<close>

lemma dep_rel_deps_reach:
  "(dep_rel h)\<^sup>* `` set (dependances (h t)) \<subseteq> (dep_rel h)\<^sup>* `` {t}"
proof
  fix u assume "u \<in> (dep_rel h)\<^sup>* `` set (dependances (h t))"
  then obtain x where x: "x \<in> set (dependances (h t))" and xu: "(x, u) \<in> (dep_rel h)\<^sup>*"
    by blast
  from x have "(t, x) \<in> dep_rel h" by (simp add: dep_rel_def)
  from this xu have "(t, u) \<in> (dep_rel h)\<^sup>*" by (rule converse_rtrancl_into_rtrancl)
  then show "u \<in> (dep_rel h)\<^sup>* `` {t}" by blast
qed

lemma reach_deps_on_cycle:
  "t \<in> (dep_rel h)\<^sup>* `` set (dependances (h t)) \<Longrightarrow> on_cycle h t"
proof -
  assume "t \<in> (dep_rel h)\<^sup>* `` set (dependances (h t))"
  then obtain x where x: "x \<in> set (dependances (h t))" and xt: "(x, t) \<in> (dep_rel h)\<^sup>*"
    by blast
  from x have "(t, x) \<in> dep_rel h" by (simp add: dep_rel_def)
  from this xt have "(t, t) \<in> (dep_rel h)\<^sup>+" by (rule rtrancl_into_trancl2)
  then show ?thesis unfolding on_cycle_def by blast
qed

lemma memo_value_upd:
  "t \<notin> set (dependances (h u)) \<Longrightarrow> memo_value h (m(t \<mapsto> r)) u = memo_value h m u"
proof -
  assume a: "t \<notin> set (dependances (h u))"
  then have eq: "map (\<lambda>x. the ((m(t \<mapsto> r)) x)) (dependances (h u))
    = map (\<lambda>x. the (m x)) (dependances (h u))"
    by (intro map_cong) auto
  show ?thesis by (simp only: memo_value_def eq)
qed

lemma spec_upd:
  assumes c: "deps_closed h m" and s: "longest_path_spec h m" and t: "t \<notin> dom m"
    and d: "set (dependances (h t)) \<subseteq> dom m" and r: "r = memo_value h m t"
  shows "deps_closed h (m(t \<mapsto> r)) \<and> longest_path_spec h (m(t \<mapsto> r))"
proof
  from c d show "deps_closed h (m(t \<mapsto> r))"
    unfolding deps_closed_def by auto
  show "longest_path_spec h (m(t \<mapsto> r))"
    unfolding longest_path_spec_def
  proof (intro allI impI)
    fix u v assume uv: "(m(t \<mapsto> r)) u = Some v"
    show "v = memo_value h (m(t \<mapsto> r)) u"
    proof (cases "u = t")
      case True
      from d t have "t \<notin> set (dependances (h t))" by auto
      with True uv r show ?thesis by (simp add: memo_value_upd)
    next
      case False
      with uv have mu: "m u = Some v" by simp
      with c have "set (dependances (h u)) \<subseteq> dom m" unfolding deps_closed_def by blast
      with t have "t \<notin> set (dependances (h u))" by auto
      then have "memo_value h (m(t \<mapsto> r)) u = memo_value h m u" by (rule memo_value_upd)
      moreover from s mu have "v = memo_value h m u" unfolding longest_path_spec_def by blast
      ultimately show ?thesis by simp
    qed
  qed
qed

lemma flp_spec:
  "no_cycle_in h memo \<and> deps_closed h memo \<and> longest_path_spec h memo \<longrightarrow>
   deps_closed h (snd (find_longest_path d h t memo)) \<and>
   longest_path_spec h (snd (find_longest_path d h t memo)) \<and>
   dom (snd (find_longest_path d h t memo)) \<subseteq> dom memo \<union> (dep_rel h)\<^sup>* `` {t}"
  "no_cycle_in h memo \<and> deps_closed h memo \<and> longest_path_spec h memo \<longrightarrow>
   deps_closed h (snd (find_longest_path_deps d h ds acc memo)) \<and>
   longest_path_spec h (snd (find_longest_path_deps d h ds acc memo)) \<and>
   dom (snd (find_longest_path_deps d h ds acc memo)) \<subseteq> dom memo \<union> (dep_rel h)\<^sup>* `` set ds \<and>
   (\<not> isl (fst (find_longest_path_deps d h ds acc memo)) \<longrightarrow>
      set ds \<subseteq> dom (snd (find_longest_path_deps d h ds acc memo)))"
proof (induction d h t memo and d h ds acc memo rule: find_longest_path_find_longest_path_deps.induct)
  case (1 h t memo)
  then show ?case by auto
next
  case (2 d h t memo)
  show ?case
  proof (intro impI)
    assume K: "no_cycle_in h memo \<and> deps_closed h memo \<and> longest_path_spec h memo"
    show "deps_closed h (snd (find_longest_path (Suc d) h t memo)) \<and>
      longest_path_spec h (snd (find_longest_path (Suc d) h t memo)) \<and>
      dom (snd (find_longest_path (Suc d) h t memo)) \<subseteq> dom memo \<union> (dep_rel h)\<^sup>* `` {t}"
    proof (cases "memo t")
      case (Some r)
      with K show ?thesis by auto
    next
      case None
      then have tn: "t \<notin> dom memo" by auto
      show ?thesis
      proof (cases "dependances (h t) = []")
        case True
        then have "(0, [t]) = memo_value h memo t" by (simp add: memo_value_def)
        from spec_upd[OF _ _ tn _ this] K True
        have "deps_closed h (memo(t \<mapsto> (0, [t]))) \<and> longest_path_spec h (memo(t \<mapsto> (0, [t])))"
          by simp
        moreover have "dom (memo(t \<mapsto> (0, [t]))) \<subseteq> dom memo \<union> (dep_rel h)\<^sup>* `` {t}" by auto
        moreover from None True have "snd (find_longest_path (Suc d) h t memo) = memo(t \<mapsto> (0, [t]))"
          by simp
        ultimately show ?thesis by simp
      next
        case False
        obtain x m where eq: "find_longest_path_deps d h (dependances (h t)) (0, []) memo = (x, m)"
          by (cases "find_longest_path_deps d h (dependances (h t)) (0, []) memo")
        from 2[OF None False] K eq
        have cm: "deps_closed h m" and sm: "longest_path_spec h m"
          and dm: "dom m \<subseteq> dom memo \<union> (dep_rel h)\<^sup>* `` set (dependances (h t))"
          and im: "\<not> isl x \<longrightarrow> set (dependances (h t)) \<subseteq> dom m"
          by simp_all
        from dm dep_rel_deps_reach[of h t]
        have dm': "dom m \<subseteq> dom memo \<union> (dep_rel h)\<^sup>* `` {t}" by blast
        show ?thesis
        proof (cases x)
          case (Inl e)
          with None False eq have "snd (find_longest_path (Suc d) h t memo) = m" by simp
          with cm sm dm' show ?thesis by simp
        next
          case (Inr best)
          obtain ml mp where best: "best = (ml, mp)" by (cases best)
          let ?r = "(ml + tache_span h t, mp @ [t])"
          from None False eq Inr best
          have res: "find_longest_path (Suc d) h t memo = (Inr ?r, m(t \<mapsto> ?r))" by simp
          from flp_cycle(1)[of h memo "Suc d" t] K res have nc: "\<not> on_cycle h t" by auto
          have tm: "t \<notin> dom m"
          proof
            assume "t \<in> dom m"
            with dm tn have "t \<in> (dep_rel h)\<^sup>* `` set (dependances (h t))" by blast
            then have "on_cycle h t" by (rule reach_deps_on_cycle)
            with nc show False by simp
          qed
          from im Inr have ds: "set (dependances (h t)) \<subseteq> dom m" by simp
          from find_longest_path_deps_result[of d h "dependances (h t)" "(0, [])" memo best m] eq Inr
          have "best = max_key_from fst (0, []) (map (\<lambda>x. the (m x)) (dependances (h t)))" by simp
          with False best have "?r = memo_value h m t"
            by (simp add: memo_value_def Let_def)
          from spec_upd[OF cm sm tm ds this]
          have "deps_closed h (m(t \<mapsto> ?r)) \<and> longest_path_spec h (m(t \<mapsto> ?r))" .
          moreover from dm' have "dom (m(t \<mapsto> ?r)) \<subseteq> dom memo \<union> (dep_rel h)\<^sup>* `` {t}" by auto
          ultimately show ?thesis unfolding res snd_conv by blast
        qed
      qed
    qed
  qed
next
  case (3 d h acc memo)
  then show ?case by simp
next
  case (4 d h dep deps acc memo)
  show ?case
  proof (intro impI)
    assume K: "no_cycle_in h memo \<and> deps_closed h memo \<and> longest_path_spec h memo"
    obtain x m where eq: "find_longest_path d h dep memo = (x, m)"
      by (cases "find_longest_path d h dep memo")
    from 4(1) K eq
    have cm: "deps_closed h m" and sm: "longest_path_spec h m"
      and dm: "dom m \<subseteq> dom memo \<union> (dep_rel h)\<^sup>* `` {dep}"
      by simp_all
    from flp_cycle(1)[of h memo d dep] K eq have nm: "no_cycle_in h m" by simp
    let ?goal = "deps_closed h (snd (find_longest_path_deps d h (dep # deps) acc memo)) \<and>
      longest_path_spec h (snd (find_longest_path_deps d h (dep # deps) acc memo)) \<and>
      dom (snd (find_longest_path_deps d h (dep # deps) acc memo))
        \<subseteq> dom memo \<union> (dep_rel h)\<^sup>* `` set (dep # deps) \<and>
      (\<not> isl (fst (find_longest_path_deps d h (dep # deps) acc memo)) \<longrightarrow>
        set (dep # deps) \<subseteq> dom (snd (find_longest_path_deps d h (dep # deps) acc memo)))"
    show ?goal
    proof (cases x)
      case (Inl e)
      with eq have "find_longest_path_deps d h (dep # deps) acc memo = (Inl e, m)" by simp
      moreover from dm have "dom m \<subseteq> dom memo \<union> (dep_rel h)\<^sup>* `` set (dep # deps)" by auto
      ultimately show ?thesis using cm sm by simp
    next
      case (Inr pr)
      obtain dl dp where pr: "pr = (dl, dp)" by (cases pr)
      from find_longest_path_result_memo[of d h dep memo pr] eq Inr
      have depm: "dep \<in> dom m" by auto
      have rest: "\<And>a. find_longest_path_deps d h (dep # deps) acc memo
           = find_longest_path_deps d h deps a m \<Longrightarrow>
         (deps_closed h (snd (find_longest_path_deps d h deps a m)) \<and>
          longest_path_spec h (snd (find_longest_path_deps d h deps a m)) \<and>
          dom (snd (find_longest_path_deps d h deps a m)) \<subseteq> dom m \<union> (dep_rel h)\<^sup>* `` set deps \<and>
          (\<not> isl (fst (find_longest_path_deps d h deps a m)) \<longrightarrow>
            set deps \<subseteq> dom (snd (find_longest_path_deps d h deps a m)))) \<Longrightarrow> ?goal"
      proof -
        fix a
        assume e: "find_longest_path_deps d h (dep # deps) acc memo
           = find_longest_path_deps d h deps a m"
        assume I: "deps_closed h (snd (find_longest_path_deps d h deps a m)) \<and>
          longest_path_spec h (snd (find_longest_path_deps d h deps a m)) \<and>
          dom (snd (find_longest_path_deps d h deps a m)) \<subseteq> dom m \<union> (dep_rel h)\<^sup>* `` set deps \<and>
          (\<not> isl (fst (find_longest_path_deps d h deps a m)) \<longrightarrow>
            set deps \<subseteq> dom (snd (find_longest_path_deps d h deps a m)))"
        from flp_mono(2)[of m d h deps a] depm
        have "dep \<in> dom (snd (find_longest_path_deps d h deps a m))"
          by (auto simp: map_le_def dom_def)
        moreover have "(dep_rel h)\<^sup>* `` {dep} \<union> (dep_rel h)\<^sup>* `` set deps
          = (dep_rel h)\<^sup>* `` set (dep # deps)" by auto
        with I dm
        have "dom (snd (find_longest_path_deps d h deps a m))
          \<subseteq> dom memo \<union> (dep_rel h)\<^sup>* `` set (dep # deps)" by blast
        ultimately show ?goal using I unfolding e by simp
      qed
      show ?thesis
      proof (cases "dl > fst acc")
        case True
        with eq Inr pr have e: "find_longest_path_deps d h (dep # deps) acc memo
           = find_longest_path_deps d h deps (dl, dp) m" by simp
        from 4(2)[OF eq[symmetric] Inr pr[symmetric] True] nm cm sm
        show ?thesis by (intro rest[OF e]) simp
      next
        case False
        with eq Inr pr have e: "find_longest_path_deps d h (dep # deps) acc memo
           = find_longest_path_deps d h deps acc m" by simp
        from 4(3)[OF eq[symmetric] Inr pr[symmetric] False] nm cm sm
        show ?thesis by (intro rest[OF e]) simp
      qed
    qed
  qed
qed


lemma deps_closed_reach:
  "deps_closed h memo \<Longrightarrow> t \<in> dom memo \<Longrightarrow> (t, u) \<in> (dep_rel h)\<^sup>* \<Longrightarrow> u \<in> dom memo"
proof -
  assume c: "deps_closed h memo" and t: "t \<in> dom memo" and r: "(t, u) \<in> (dep_rel h)\<^sup>*"
  from r t show ?thesis
  proof (induction rule: rtrancl_induct)
    case base
    then show ?case .
  next
    case (step y z)
    then have "y \<in> dom memo" by simp
    with c have "set (dependances (h y)) \<subseteq> dom memo" unfolding deps_closed_def by blast
    moreover from step(2) have "z \<in> set (dependances (h y))" by (simp add: dep_rel_def)
    ultimately show ?case by blast
  qed
qed

lemma all_paths_spec:
  "no_cycle_in h memo \<Longrightarrow> deps_closed h memo \<Longrightarrow> longest_path_spec h memo \<Longrightarrow>
   deps_closed h (snd (all_paths d h ts memo)) \<and>
   longest_path_spec h (snd (all_paths d h ts memo)) \<and>
   (\<forall>rs. fst (all_paths d h ts memo) = Inr rs \<longrightarrow>
      rs = map (\<lambda>t. the (snd (all_paths d h ts memo) t)) ts \<and>
      set ts \<subseteq> dom (snd (all_paths d h ts memo)))"
proof (induction ts arbitrary: memo)
  case Nil
  then show ?case by simp
next
  case (Cons t ts)
  obtain x m where eq: "find_longest_path d h t memo = (x, m)"
    by (cases "find_longest_path d h t memo")
  from flp_spec(1)[of h memo d t] Cons.prems eq
  have cm: "deps_closed h m" and sm: "longest_path_spec h m" by simp_all
  from flp_cycle(1)[of h memo d t] Cons.prems(1) eq have nm: "no_cycle_in h m" by simp
  show ?case
  proof (cases x)
    case (Inl e)
    with eq cm sm show ?thesis by simp
  next
    case (Inr r)
    from find_longest_path_result_memo[of d h t memo r] eq Inr have mt: "m t = Some r" by simp
    obtain y m' where eq2: "all_paths d h ts m = (y, m')" by (cases "all_paths d h ts m")
    from Cons.IH[OF nm cm sm] eq2
    have cm': "deps_closed h m'" and sm': "longest_path_spec h m'"
      and rs: "\<And>rs. y = Inr rs \<Longrightarrow> rs = map (\<lambda>t. the (m' t)) ts \<and> set ts \<subseteq> dom m'"
      by simp_all
    from all_paths_mono[of m d h ts] eq2 have "m \<subseteq>\<^sub>m m'" by simp
    with mt have mt': "m' t = Some r" by (auto simp: map_le_def dom_def)
    show ?thesis
    proof (cases y)
      case (Inl e)
      with eq Inr eq2 cm' sm' show ?thesis by simp
    next
      case (Inr rs')
      from rs[OF this] mt' have "r # rs' = map (\<lambda>t. the (m' t)) (t # ts)"
        and "set (t # ts) \<subseteq> dom m'" by auto
      with eq \<open>x = Inr r\<close> eq2 Inr cm' sm' show ?thesis by simp
    qed
  qed
qed

lemma deps_closed_empty: "deps_closed h Map.empty"
  by (simp add: deps_closed_def)

lemma longest_path_spec_empty: "longest_path_spec h Map.empty"
  by (simp add: longest_path_spec_def)

lemma calculer_success_iff:
  "fst (calculer_chemin_critique d h p) = None \<longleftrightarrow>
   (\<exists>r rs. fst (all_paths d h (taches p) Map.empty) = Inr (r # rs))"
proof -
  obtain x m where eq: "all_paths d h (taches p) Map.empty = (x, m)"
    by (cases "all_paths d h (taches p) Map.empty")
  show ?thesis
  proof (cases x)
    case (Inl e)
    with eq show ?thesis by (simp add: calculer_chemin_critique_def)
  next
    case (Inr rs)
    with eq show ?thesis by (cases rs) (simp_all add: calculer_chemin_critique_def max_key_def)
  qed
qed

lemma calculer_success_spec:
  assumes ok: "fst (calculer_chemin_critique d h p) = None"
  shows "deps_closed h (snd (all_paths d h (taches p) Map.empty)) \<and>
    longest_path_spec h (snd (all_paths d h (taches p) Map.empty)) \<and>
    set (taches p) \<subseteq> dom (snd (all_paths d h (taches p) Map.empty)) \<and>
    (\<exists>ys best zs.
       map (\<lambda>t. the (snd (all_paths d h (taches p) Map.empty) t)) (taches p) = ys @ best # zs \<and>
       (\<forall>y\<in>set ys. fst y < fst best) \<and> (\<forall>z\<in>set zs. fst z \<le> fst best) \<and>
       snd (calculer_chemin_critique d h p) = p\<lparr>chemin_critique := snd best\<rparr>)"
proof -
  obtain x m where eq: "all_paths d h (taches p) Map.empty = (x, m)"
    by (cases "all_paths d h (taches p) Map.empty")
  from ok calculer_success_iff[of d h p] eq obtain r rs where x: "x = Inr (r # rs)" by auto
  from all_paths_spec[OF no_cycle_in_empty deps_closed_empty longest_path_spec_empty, of h d "taches p"] eq x
  have cm: "deps_closed h m" and sm: "longest_path_spec h m"
    and rs: "r # rs = map (\<lambda>t. the (m t)) (taches p)" and dm: "set (taches p) \<subseteq> dom m"
    by simp_all
  from max_key_from_first[of r rs fst] obtain ys zs where
    s: "r # rs = ys @ max_key_from fst r rs # zs"
    and l: "\<forall>y\<in>set ys. fst y < fst (max_key_from fst r rs)"
    and g: "\<forall>z\<in>set zs. fst z \<le> fst (max_key_from fst r rs)" by blast
  from eq x have "snd (calculer_chemin_critique d h p)
     = p\<lparr>chemin_critique := snd (max_key_from fst r rs)\<rparr>"
    by (simp add: calculer_chemin_critique_def max_key_def)
  with s l g rs have "\<exists>ys best zs.
       map (\<lambda>t. the (m t)) (taches p) = ys @ best # zs \<and>
       (\<forall>y\<in>set ys. fst y < fst best) \<and> (\<forall>z\<in>set zs. fst z \<le> fst best) \<and>
       snd (calculer_chemin_critique d h p) = p\<lparr>chemin_critique := snd best\<rparr>"
    by metis
  with cm sm dm show ?thesis unfolding eq snd_conv by blast
qed


section \<open>The claims\<close>

subsection \<open>Lengths and paths of the critical-path search\<close>

text \<open>Claim C1. A task without dependencies should be memoized with its own span as
  length and with the path made of the task alone. The search stores the length 0
  for such a task, whatever its span: the first task of the module's script spans
  30 days and is memoized as \<open>(0, [task])\<close>. The branch for a task that has
  dependencies does add the span of the task.\<close>

theorem leaf_task_memoized_length_zero:
  "tache_span script_store 1 = 30 \<and>
   dependances (script_store 1) = [] \<and>
   fst (find_longest_path 1000 script_store 1 Map.empty) = Inr (0, [1]) \<and>
   snd (find_longest_path 1000 script_store 1 Map.empty) 1 = Some (0, [1])"
  by code_simp

text \<open>Claim C2. In the diamond A (10 days), B (5 days, after A), C (20 days, after A),
  D (1 day, after B and C), the length memoized for D should be 31 and its path
  A, C, D. The search memoizes 21 and the path C, D: A counts for 0, and the path
  of A is not taken over by B and C because its length 0 is not greater than the
  initial maximum 0.\<close>

theorem diamond_memoized_length:
  "fst (find_longest_path 1000 diamond_store 4 Map.empty) = Inr (21, [3, 4]) \<and>
   map (tache_span diamond_store) [1, 2, 3, 4] = [10, 5, 20, 1] \<and>
   snd (find_longest_path 1000 diamond_store 4 Map.empty) 4 = Some (21, [3, 4])"
  by code_simp

text \<open>Claim C4. On a project without tasks the computation should succeed with an
  empty critical path. \<open>max\<close> is applied to the empty list of paths and raises
  \<open>ValueError\<close>.\<close>

theorem empty_task_list_raises_ValueError:
  "taches projet_vide = [] \<and>
   fst (calculer_chemin_critique 1000 script_store projet_vide) = Some ValueError"
  by code_simp

text \<open>Claim C6. Among the dependencies of a task, the path of the first one of
  maximal length should be selected, also when that maximum is 0. In the module's
  script the second task has the first task as its only dependency, memoized with
  length 0 and path \<open>[1]\<close>; the path memoized for the second task is \<open>[2]\<close>
  alone, so the path of the dependency was not selected.\<close>

theorem zero_length_dependency_not_selected:
  "dependances (script_store 2) = [1] \<and>
   snd (find_longest_path 1000 script_store 2 Map.empty) 1 = Some (0, [1]) \<and>
   snd (find_longest_path 1000 script_store 2 Map.empty) 2 = Some (150, [2])"
  by code_simp

lemma cycle_store_on_cycle: "on_cycle cycle_store 1"
proof -
  have a: "(1, 2) \<in> dep_rel cycle_store" and b: "(2, 1) \<in> dep_rel cycle_store"
    by (simp_all add: dep_rel_def cycle_store_def tache_jours_def tache_init_def)
  from a b have "(1, 1) \<in> (dep_rel cycle_store)\<^sup>+"
    by (rule trancl_into_trancl2[OF _ r_into_trancl])
  then show ?thesis unfolding on_cycle_def by blast
qed

subsection \<open>Cycles\<close>

text \<open>Claim C3, as stated, fails: the search has no detection of cycles. On two
  tasks that depend on each other the nesting of calls grows until the interpreter
  raises \<open>RecursionError\<close>, which is not a \<open>CyclicDependencyError\<close>.\<close>

theorem cycle_not_CyclicDependencyError:
  "fst (calculer_chemin_critique 1000 cycle_store (projet_taches [3, 1, 2])) = Some RecursionError \<and>
   RecursionError \<noteq> OtherException ''CyclicDependencyError''"
  using calculer_cycle[of 1 "projet_taches [3, 1, 2]" cycle_store 1000] cycle_store_on_cycle
  by (simp add: projet_taches_def)

text \<open>Claim C3, amended. If a cycle of dependencies can be reached from a task of
  the project, then for every recursion limit the computation ends by raising
  \<open>RecursionError\<close> and leaves the project as it was; and whatever was memoized
  for the tasks in front of any point of the task list is still memoized, with the
  same value, when the computation stops.\<close>

theorem cycle_raises_RecursionError:
  assumes "t \<in> set (taches p)" and "on_cycle h t"
  shows "calculer_chemin_critique d h p = (Some RecursionError, p) \<and>
    (\<forall>ts1 ts2. taches p = ts1 @ ts2 \<longrightarrow>
       snd (all_paths d h ts1 Map.empty) \<subseteq>\<^sub>m snd (all_paths d h (taches p) Map.empty))"
  using calculer_cycle[OF assms] all_paths_append[of d h _ Map.empty] by simp

theorem cycle_raises_RecursionError_witness:
  "1 \<in> set (taches (projet_taches [3, 1, 2])) \<and> on_cycle cycle_store 1 \<and>
   calculer_chemin_critique 1000 cycle_store (projet_taches [3, 1, 2])
     = (Some RecursionError, projet_taches [3, 1, 2]) \<and>
   snd (all_paths 1000 cycle_store [3] Map.empty) 3 = Some (0, [3]) \<and>
   snd (all_paths 1000 cycle_store [3] Map.empty)
     \<subseteq>\<^sub>m snd (all_paths 1000 cycle_store (taches (projet_taches [3, 1, 2])) Map.empty)"
proof -
  have m: "1 \<in> set (taches (projet_taches [3, 1, 2]))" by (simp add: projet_taches_def)
  have s: "taches (projet_taches [3, 1, 2]) = [3] @ [1, 2]" by (simp add: projet_taches_def)
  have e: "snd (all_paths 1000 cycle_store [3] Map.empty) 3 = Some (0, [3])" by code_simp
  from cycle_raises_RecursionError[OF m cycle_store_on_cycle, of 1000] s m e cycle_store_on_cycle show ?thesis by blast
qed


subsection \<open>Memoized paths end with their task\<close>

text \<open>Claim C10. When the computation succeeds, every memoized path is non-empty and
  ends with the task it is memoized for, and the critical path stored on the
  project is non-empty and ends with a task of the project's task list.\<close>

theorem memoized_paths_end_with_task:
  assumes "calculer_chemin_critique d h p = (None, p')"
  shows "paths_end (snd (all_paths d h (taches p) Map.empty)) \<and>
    chemin_critique p' \<noteq> [] \<and> last (chemin_critique p') \<in> set (taches p)"
proof -
  obtain r m where eq: "all_paths d h (taches p) Map.empty = (r, m)"
    by (cases "all_paths d h (taches p) Map.empty")
  from assms eq obtain rs where r: "r = Inr rs"
    by (cases r) (auto simp: calculer_chemin_critique_def)
  from assms eq r obtain x xs where rs: "rs = x # xs"
    by (cases rs) (auto simp: calculer_chemin_critique_def max_key_def)
  from assms eq r rs have p': "chemin_critique p' = snd (max_key_from fst x xs)"
    by (auto simp: calculer_chemin_critique_def max_key_def)
  from all_paths_last[OF paths_end_empty, of d h "taches p"] eq r
  have pe: "paths_end m" and la: "list_all2 (\<lambda>t r. snd r \<noteq> [] \<and> last (snd r) = t) (taches p) rs"
    by auto
  have "max_key_from fst x xs \<in> set rs" using max_key_from_mem[of fst x xs] rs by simp
  then obtain i where i: "i < length rs" "rs ! i = max_key_from fst x xs"
    by (auto simp: in_set_conv_nth)
  from la have len: "length (taches p) = length rs" by (rule list_all2_lengthD)
  from la i(1) have "snd (rs ! i) \<noteq> [] \<and> last (snd (rs ! i)) = taches p ! i"
    by (simp add: list_all2_conv_all_nth)
  moreover from i(1) len have "taches p ! i \<in> set (taches p)" by simp
  ultimately show ?thesis using p' pe eq i(2) by simp
qed

theorem memoized_paths_end_with_task_witness:
  "calculer_chemin_critique 1000 diamond_store (projet_taches [1, 2, 3, 4])
     = (None, (projet_taches [1, 2, 3, 4])\<lparr>chemin_critique := [3, 4]\<rparr>) \<and>
   chemin_critique ((projet_taches [1, 2, 3, 4])\<lparr>chemin_critique := [3, 4]\<rparr>) \<noteq> [] \<and>
   last (chemin_critique ((projet_taches [1, 2, 3, 4])\<lparr>chemin_critique := [3, 4]\<rparr>))
     \<in> set (taches (projet_taches [1, 2, 3, 4]))"
proof -
  have f: "fst (calculer_chemin_critique 1000 diamond_store (projet_taches [1, 2, 3, 4])) = None"
    and c: "chemin_critique (snd (calculer_chemin_critique 1000 diamond_store (projet_taches [1, 2, 3, 4]))) = [3, 4]"
    by code_simp+
  from calculer_frame[where d=1000 and h=diamond_store and p="projet_taches [1, 2, 3, 4]"] c
  have "snd (calculer_chemin_critique 1000 diamond_store (projet_taches [1, 2, 3, 4]))
     = (projet_taches [1, 2, 3, 4])\<lparr>chemin_critique := [3, 4]\<rparr>"
    by (metis projet.surjective projet.update_convs(12))
  with f have e: "calculer_chemin_critique 1000 diamond_store (projet_taches [1, 2, 3, 4])
     = (None, (projet_taches [1, 2, 3, 4])\<lparr>chemin_critique := [3, 4]\<rparr>)"
    by (metis prod.collapse)
  from memoized_paths_end_with_task[OF e] e show ?thesis by blast
qed

subsection \<open>What the computation writes\<close>

text \<open>Claim C9, as stated, fails: the computation is not a pure read, it assigns its
  result to the field \<open>chemin_critique\<close> of the project.\<close>

theorem calculer_chemin_critique_writes_chemin_critique:
  "chemin_critique (projet_taches [1, 2]) = [] \<and>
   chemin_critique (snd (calculer_chemin_critique 1000 script_store (projet_taches [1, 2]))) = [2]"
  by code_simp

text \<open>Claim C9, amended. The computation has exactly one side effect. It changes no
  field of the project other than \<open>chemin_critique\<close> (the tasks are only read:
  the store is an argument and is not returned), and when it raises it changes
  nothing at all. It succeeds exactly when the search succeeds on a non-empty task
  list, and then the project is the old one with \<open>chemin_critique\<close> set to the
  path of the first pair of maximal length among the pairs memoized for the tasks
  of the list, in their order, where what is memoized obeys \<open>memo_value\<close>.\<close>

theorem calculer_chemin_critique_frame:
  "(snd (calculer_chemin_critique d h p))\<lparr>chemin_critique := chemin_critique p\<rparr> = p \<and>
   (fst (calculer_chemin_critique d h p) \<noteq> None \<longrightarrow> snd (calculer_chemin_critique d h p) = p) \<and>
   (fst (calculer_chemin_critique d h p) = None \<longleftrightarrow>
      (\<exists>r rs. fst (all_paths d h (taches p) Map.empty) = Inr (r # rs))) \<and>
   (fst (calculer_chemin_critique d h p) = None \<longrightarrow>
      longest_path_spec h (snd (all_paths d h (taches p) Map.empty)) \<and>
      set (taches p) \<subseteq> dom (snd (all_paths d h (taches p) Map.empty)) \<and>
      (\<exists>ys best zs.
         map (\<lambda>t. the (snd (all_paths d h (taches p) Map.empty) t)) (taches p) = ys @ best # zs \<and>
         (\<forall>y\<in>set ys. fst y < fst best) \<and> (\<forall>z\<in>set zs. fst z \<le> fst best) \<and>
         snd (calculer_chemin_critique d h p) = p\<lparr>chemin_critique := snd best\<rparr>))"
  using calculer_frame[where d=d and h=h and p=p] calculer_error_unchanged[where d=d and h=h and p=p]
    calculer_success_iff[where d=d and h=h and p=p] calculer_success_spec[where d=d and h=h and p=p]
  by blast

theorem calculer_chemin_critique_frame_witness:
  "fst (calculer_chemin_critique 1000 diamond_store (projet_taches [1, 2, 3, 4])) = None \<and>
   map (\<lambda>t. the (snd (all_paths 1000 diamond_store [1, 2, 3, 4] Map.empty) t)) [1, 2, 3, 4]
     = [(0, [1]), (5, [2]), (20, [3]), (21, [3, 4])] \<and>
   snd (calculer_chemin_critique 1000 diamond_store (projet_taches [1, 2, 3, 4]))
     = (projet_taches [1, 2, 3, 4])\<lparr>chemin_critique := [3, 4]\<rparr>"
proof -
  let ?p = "projet_taches [1, 2, 3, 4]"
  have t: "taches ?p = [1, 2, 3, 4]" by (simp add: projet_taches_def)
  have ok: "fst (calculer_chemin_critique 1000 diamond_store ?p) = None" by code_simp
  have m: "map (\<lambda>t. the (snd (all_paths 1000 diamond_store [1, 2, 3, 4] Map.empty) t)) [1, 2, 3, 4]
     = [(0, [1]), (5, [2]), (20, [3]), (21, [3, 4])]" by code_simp
  from calculer_chemin_critique_frame[where d=1000 and h=diamond_store and p="?p"] ok obtain ys best zs where
    s: "map (\<lambda>t. the (snd (all_paths 1000 diamond_store (taches ?p) Map.empty) t)) (taches ?p)
         = ys @ best # zs"
    and l: "\<forall>y\<in>set ys. fst y < fst best" and g: "\<forall>z\<in>set zs. fst z \<le> fst best"
    and r: "snd (calculer_chemin_critique 1000 diamond_store ?p) = ?p\<lparr>chemin_critique := snd best\<rparr>"
    by blast
  from s t m have s': "[(0, [1]), (5, [2]), (20, [3]), (21, [3, 4])] = ys @ best # (zs :: path_result list)"
    by simp
  have "best = (21, [3, 4])"
  proof (rule ccontr)
    assume n: "best \<noteq> (21, [3, 4])"
    from s' have "zs \<noteq> []" using n by (cases zs rule: rev_cases) auto
    with s' have "(21, [3, 4]) \<in> set zs" by (cases zs rule: rev_cases) auto
    with g have "21 \<le> fst best" by force
    moreover from s' have "best \<in> set [(0, [1]), (5, [2]), (20, [3]), (21, [3, 4])]" by simp
    ultimately show False using n by auto
  qed
  with r ok m show ?thesis by simp
qed

subsection \<open>Dependencies that are not registered\<close>

lemma ajouter_dependance_lists:
  "dependances (ajouter_dependance self x h y)
     = (if dependances_id (h y) = dependances_id (h self)
        then dependances (h y) @ [x] else dependances (h y))"
  by (simp add: ajouter_dependance_def)

lemma shared_store_alias:
  "dependances (ajouter_dependance 2 4 shared_store 2) = [1, 4] \<and>
   dependances (ajouter_dependance 2 4 shared_store 3) = [1, 4] \<and>
   dependances (ajouter_dependance 2 4 shared_store 1) = []"
  by code_simp

text \<open>Claim C5, as stated, fails: a project that registers only task 3, whose
  dependency 2 is not in the task list, is computed without any error, and the
  unregistered task is on the critical path.\<close>

theorem unregistered_dependency_succeeds:
  "2 \<notin> set (taches (projet_taches [3])) \<and> 2 \<in> set (dependances (chain_store 3)) \<and>
   fst (calculer_chemin_critique 1000 chain_store (projet_taches [3])) = None \<and>
   chemin_critique (snd (calculer_chemin_critique 1000 chain_store (projet_taches [3]))) = [2, 3]"
  by code_simp

text \<open>Claim C5, amended. Nothing is validated, neither when a dependency is added
  (\<open>ajouter_dependance\<close> only appends to the list of the task, for every task
  that holds that list) nor at computation time: the computation never raises an
  \<open>UnknownDependencyError\<close>, and when it succeeds, every task that can be
  reached through the dependency lists from a task of the task list, registered
  or not, is memoized by the same rule \<open>memo_value\<close>, and the critical path is the
  path of the first pair of maximal length among those memoized for the tasks of
  the list.\<close>

theorem unregistered_dependency_not_validated:
  "fst (calculer_chemin_critique d h p) \<noteq> Some (OtherException ''UnknownDependencyError'') \<and>
   (fst (calculer_chemin_critique d h p) = None \<longrightarrow>
      (\<forall>t u. t \<in> set (taches p) \<and> (t, u) \<in> (dep_rel h)\<^sup>* \<longrightarrow>
         snd (all_paths d h (taches p) Map.empty) u
           = Some (memo_value h (snd (all_paths d h (taches p) Map.empty)) u)) \<and>
      (\<exists>ys best zs.
         map (\<lambda>t. the (snd (all_paths d h (taches p) Map.empty) t)) (taches p) = ys @ best # zs \<and>
         (\<forall>y\<in>set ys. fst y < fst best) \<and> (\<forall>z\<in>set zs. fst z \<le> fst best) \<and>
         chemin_critique (snd (calculer_chemin_critique d h p)) = snd best)) \<and>
   dependances (ajouter_dependance self x h y)
     = (if dependances_id (h y) = dependances_id (h self)
        then dependances (h y) @ [x] else dependances (h y))"
proof -
  let ?M = "snd (all_paths d h (taches p) Map.empty)"
  have a: "fst (calculer_chemin_critique d h p) \<noteq> Some (OtherException ''UnknownDependencyError'')"
    using calculer_errors[where d=d and h=h and p=p and e="OtherException ''UnknownDependencyError''"]
    by auto
  have b: "?M u = Some (memo_value h ?M u)"
    if ok: "fst (calculer_chemin_critique d h p) = None"
      and t: "t \<in> set (taches p)" and r: "(t, u) \<in> (dep_rel h)\<^sup>*" for t u
  proof -
    from calculer_success_spec[OF ok]
    have c: "deps_closed h ?M" and s: "longest_path_spec h ?M" and dm: "set (taches p) \<subseteq> dom ?M"
      by blast+
    from dm t have "t \<in> dom ?M" by blast
    from deps_closed_reach[OF c this r] obtain v where v: "?M u = Some v" by blast
    with s have "v = memo_value h ?M u" unfolding longest_path_spec_def by blast
    with v show ?thesis by simp
  qed
  have c: "\<exists>ys best zs.
         map (\<lambda>t. the (?M t)) (taches p) = ys @ best # zs \<and>
         (\<forall>y\<in>set ys. fst y < fst best) \<and> (\<forall>z\<in>set zs. fst z \<le> fst best) \<and>
         chemin_critique (snd (calculer_chemin_critique d h p)) = snd best"
    if ok: "fst (calculer_chemin_critique d h p) = None"
  proof -
    from calculer_success_spec[OF ok] obtain ys best zs where
      "map (\<lambda>t. the (?M t)) (taches p) = ys @ best # zs"
      "\<forall>y\<in>set ys. fst y < fst best" "\<forall>z\<in>set zs. fst z \<le> fst best"
      "snd (calculer_chemin_critique d h p) = p\<lparr>chemin_critique := snd best\<rparr>"
      by blast
    moreover from this(4) have "chemin_critique (snd (calculer_chemin_critique d h p)) = snd best"
      by simp
    ultimately show ?thesis by blast
  qed
  from a b c ajouter_dependance_lists[of self x h y] show ?thesis by blast
qed

lemma chain_store_reach: "(3, 2) \<in> (dep_rel chain_store)\<^sup>*"
proof -
  have "2 \<in> set (dependances (chain_store 3))" by code_simp
  then have "(3, 2) \<in> dep_rel chain_store" by (simp add: dep_rel_def)
  then show ?thesis by blast
qed

theorem unregistered_dependency_not_validated_witness:
  "fst (calculer_chemin_critique 1000 chain_store (projet_taches [3])) = None \<and>
   3 \<in> set (taches (projet_taches [3])) \<and> 2 \<notin> set (taches (projet_taches [3])) \<and>
   (3, 2) \<in> (dep_rel chain_store)\<^sup>* \<and>
   snd (all_paths 1000 chain_store (taches (projet_taches [3])) Map.empty) 2
     = Some (memo_value chain_store
         (snd (all_paths 1000 chain_store (taches (projet_taches [3])) Map.empty)) 2) \<and>
   snd (all_paths 1000 chain_store [3] Map.empty) 2 = Some (10, [2]) \<and>
   chemin_critique (snd (calculer_chemin_critique 1000 chain_store (projet_taches [3]))) = [2, 3]"
proof -
  have ok: "fst (calculer_chemin_critique 1000 chain_store (projet_taches [3])) = None"
    by code_simp
  have t: "3 \<in> set (taches (projet_taches [3]))" "2 \<notin> set (taches (projet_taches [3]))"
    by (simp_all add: projet_taches_def)
  have v: "snd (all_paths 1000 chain_store [3] Map.empty) 2 = Some (10, [2])" by code_simp
  have cc: "chemin_critique (snd (calculer_chemin_critique 1000 chain_store (projet_taches [3]))) = [2, 3]"
    by code_simp
  from unregistered_dependency_not_validated[where d=1000 and h=chain_store and p="projet_taches [3]"] ok t(1) chain_store_reach
  have "snd (all_paths 1000 chain_store (taches (projet_taches [3])) Map.empty) 2
     = Some (memo_value chain_store
         (snd (all_paths 1000 chain_store (taches (projet_taches [3])) Map.empty)) 2)"
    by blast
  with ok t chain_store_reach v cc show ?thesis by blast
qed

subsection \<open>Notifications and versions\<close>

lemma context_notifier_email:
  "context_notifier \<lparr>strategy = EmailNotificationStrategy\<rparr> message ds out
     = (None, out @ map (notification_line ''email'' message) ds)"
  by (induction ds arbitrary: out) simp_all

lemma context_notifier_sms:
  "context_notifier \<lparr>strategy = SMSNotificationStrategy\<rparr> message ds out
     = (None, out @ map (notification_line ''SMS'' message) ds)"
  by (induction ds arbitrary: out) simp_all

lemma context_notifier_push:
  "context_notifier \<lparr>strategy = PushNotificationStrategy\<rparr> message ds out
     = (None, out @ map (notification_line ''Push'' message) ds)"
  by (induction ds arbitrary: out) simp_all

lemma context_notifier_raise:
  "context_notifier c message ds1 out = (None, out1) \<Longrightarrow>
   envoyer_message (strategy c) message d out1 = (Some e, out2) \<Longrightarrow>
   context_notifier c message (ds1 @ d # ds2) out = (Some e, out2)"
proof (induction ds1 arbitrary: out)
  case Nil
  then show ?case by simp
next
  case (Cons x xs)
  obtain r o' where eq: "envoyer_message (strategy c) message x out = (r, o')"
    by (cases "envoyer_message (strategy c) message x out")
  with Cons.prems(1) have r: "r = None" by (cases r) auto
  with eq Cons.prems(1) have "context_notifier c message xs o' = (None, out1)" by simp
  from Cons.IH[OF this Cons.prems(2)] eq r show ?case by simp
qed

text \<open>Claim C8, as stated, fails: with a strategy that raises for the first of two
  recipients, the exception leaves the loop at once and the second recipient is
  never attempted.\<close>

theorem failing_delivery_stops_broadcast:
  "context_notifier \<lparr>strategy = failing_strategy\<rparr> ''m'' [modou, christian] []
     = (Some (OtherException ''DeliveryError''), [''Modou''])"
  by code_simp

text \<open>Claim C8, amended. With each of the three strategies of the module, which
  never raise, the broadcast prints one line per recipient, in the order of the
  list and with the same message. With any strategy, an exception raised for a
  recipient is raised by the broadcast at once, and the recipients after that one
  are not attempted.\<close>

theorem context_notifier_deliveries:
  "context_notifier \<lparr>strategy = EmailNotificationStrategy\<rparr> message ds out
     = (None, out @ map (notification_line ''email'' message) ds) \<and>
   context_notifier \<lparr>strategy = SMSNotificationStrategy\<rparr> message ds out
     = (None, out @ map (notification_line ''SMS'' message) ds) \<and>
   context_notifier \<lparr>strategy = PushNotificationStrategy\<rparr> message ds out
     = (None, out @ map (notification_line ''Push'' message) ds) \<and>
   (context_notifier c message ds1 out = (None, out1) \<and>
    envoyer_message (strategy c) message d out1 = (Some e, out2) \<longrightarrow>
    context_notifier c message (ds1 @ d # ds2) out = (Some e, out2))"
  using context_notifier_email context_notifier_sms context_notifier_push context_notifier_raise
  by blast

theorem context_notifier_deliveries_witness:
  "context_notifier \<lparr>strategy = failing_strategy\<rparr> ''m'' [christian] [] = (None, [''Christian'']) \<and>
   envoyer_message (strategy \<lparr>strategy = failing_strategy\<rparr>) ''m'' modou [''Christian'']
     = (Some (OtherException ''DeliveryError''), [''Christian'', ''Modou'']) \<and>
   context_notifier \<lparr>strategy = failing_strategy\<rparr> ''m'' ([christian] @ modou # [christian, christian]) []
     = (Some (OtherException ''DeliveryError''), [''Christian'', ''Modou''])"
proof -
  have a: "context_notifier \<lparr>strategy = failing_strategy\<rparr> ''m'' [christian] [] = (None, [''Christian''])"
    by (simp add: failing_strategy_def christian_def)
  have b: "envoyer_message (strategy \<lparr>strategy = failing_strategy\<rparr>) ''m'' modou [''Christian'']
     = (Some (OtherException ''DeliveryError''), [''Christian'', ''Modou''])"
    by (simp add: failing_strategy_def modou_def)
  from context_notifier_deliveries[where c="\<lparr>strategy = failing_strategy\<rparr>" and message="''m''" and ?ds1.0="[christian]"
      and out="[]" and ?out1.0="[''Christian'']" and d=modou
      and e="OtherException ''DeliveryError''" and ?out2.0="[''Christian'', ''Modou'']"
      and ?ds2.0="[christian, christian]"] a b
  show ?thesis by blast
qed

lemma notifier_projet_unchanged:
  "version (fst (snd (ajouter_membre_equipe m p out))) = version p"
  "changements (fst (snd (ajouter_membre_equipe m p out))) = changements p"
  "version (fst (snd (ajouter_tache h t p out))) = version p"
  "changements (fst (snd (ajouter_tache h t p out))) = changements p"
  "version (fst (snd (definir_budget fs b p out))) = version p"
  "changements (fst (snd (definir_budget fs b p out))) = changements p"
  "version (fst (snd (ajouter_risque r p out))) = version p"
  "changements (fst (snd (ajouter_risque r p out))) = changements p"
  "version (fst (snd (ajouter_jalon j p out))) = version p"
  "changements (fst (snd (ajouter_jalon j p out))) = changements p"
  by (simp_all add: ajouter_membre_equipe_def ajouter_tache_def definir_budget_def
      ajouter_risque_def ajouter_jalon_def Let_def split: prod.splits)

lemma calculer_version:
  "version (snd (calculer_chemin_critique d h p)) = version p"
  "changements (snd (calculer_chemin_critique d h p)) = changements p"
  by (auto simp: calculer_chemin_critique_def split: prod.splits sum.splits)

lemma enregistrer_changement_step:
  "changements (fst (snd (enregistrer_changement now description p out)))
     = changements p @ [changement_init now description (version p)]"
  "version (fst (snd (enregistrer_changement now description p out))) = version p + 1"
  "(fst (enregistrer_changement now description p out),
    snd (snd (enregistrer_changement now description p out)))
     = notifier (fst (snd (enregistrer_changement now description p out)))
         (changement_message description (version p + 1)) out"
  by (simp_all add: enregistrer_changement_def Let_def split: prod.splits)

lemma call_method_cases:
  "(version (fst (snd (call_method fs c p out))) = version p \<and>
    changements (fst (snd (call_method fs c p out))) = changements p) \<or>
   (\<exists>now description. version (fst (snd (call_method fs c p out))) = version p + 1 \<and>
    changements (fst (snd (call_method fs c p out)))
      = changements p @ [changement_init now description (version p)])"
proof (cases c)
  case (Enregistrer_changement now description)
  then show ?thesis using enregistrer_changement_step(1,2)[of now description p out] by auto
next
  case (Calculer_chemin_critique d h)
  then show ?thesis using calculer_version[of d h p]
    by (cases "calculer_chemin_critique d h p") simp
qed (simp_all add: notifier_projet_unchanged ajouter_membre_def set_notification_strategy_def)

lemma call_method_inv:
  assumes "1 \<le> version p" "map changement_version (changements p) = [1..version p - 1]"
  shows "1 \<le> version (fst (snd (call_method fs c p out))) \<and>
    map changement_version (changements (fst (snd (call_method fs c p out))))
      = [1..version (fst (snd (call_method fs c p out))) - 1]"
  using call_method_cases[of fs c p out] assms
  by (auto simp: changement_init_def upto_rec2)

lemma call_methods_inv:
  "1 \<le> version p \<Longrightarrow> map changement_version (changements p) = [1..version p - 1] \<Longrightarrow>
   1 \<le> version (fst (call_methods fs cs p out)) \<and>
    map changement_version (changements (fst (call_methods fs cs p out)))
      = [1..version (fst (call_methods fs cs p out)) - 1]"
proof (induction cs arbitrary: p out)
  case Nil
  then show ?case by simp
next
  case (Cons c cs)
  obtain e p' out' where eq: "call_method fs c p out = (e, p', out')"
    by (cases "call_method fs c p out")
  from call_method_inv[OF Cons.prems, of fs c out] eq
  have "1 \<le> version p'" "map changement_version (changements p') = [1..version p' - 1]"
    by simp_all
  from Cons.IH[OF this, of out'] eq show ?case by simp
qed

lemma call_method_prefix:
  "take (length (changements p)) (changements (fst (snd (call_method fs c p out)))) = changements p"
  using call_method_cases[of fs c p out] by auto

lemma sorted_wrt_less_upto: "sorted_wrt (<) [i..j]"
  by (simp add: strict_sorted_iff)

lemma digit_value_nth: "k < 10 \<Longrightarrow> digit_value (''0123456789'' ! k) = k"
proof -
  assume "k < 10"
  then have "k \<in> {..<10}" by simp
  then show ?thesis
    by (auto simp: lessThan_nat_numeral lessThan_Suc digit_value_def)
qed

lemma nat_of_digits_snoc: "nat_of_digits (cs @ [c]) = 10 * nat_of_digits cs + digit_value c"
  by (simp add: nat_of_digits_def)

lemma nat_of_digits_str_nat: "nat_of_digits (str_nat n) = n"
proof (induction n rule: str_nat.induct)
  case (1 n)
  show ?case
  proof (cases "n < 10")
    case True
    then have "str_nat n = [''0123456789'' ! n]" by (subst str_nat.simps) simp
    with True show ?thesis using nat_of_digits_snoc[of "[]" "''0123456789'' ! n"]
      by (simp add: digit_value_nth nat_of_digits_def)
  next
    case False
    then have "str_nat n = str_nat (n div 10) @ [''0123456789'' ! (n mod 10)]"
      by (subst str_nat.simps) simp
    with 1[OF False] show ?thesis
      by (simp add: nat_of_digits_snoc digit_value_nth)
  qed
qed

lemma nat_of_digits_str_int: "0 \<le> v \<Longrightarrow> int (nat_of_digits (str_int v)) = v"
  by (simp add: str_int_def nat_of_digits_str_nat)

lemma notifier_none: "notification_context p = None \<Longrightarrow> notifier p message out = (None, out)"
  by (simp add: notifier_def)

lemma notifier_email:
  "notification_context p = Some \<lparr>strategy = EmailNotificationStrategy\<rparr> \<Longrightarrow>
   notifier p message out = (None, out @ map
     (\<lambda>m. ''Notification envoy'' @ [CHR 0xC3, CHR 0xA9] @ ''e '' @ [CHR 0xC3, CHR 0xA0] @ '' ''
        @ membre_nom m @ '' par email: '' @ message) (membres (equipe p)))"
  by (simp add: notifier_def context_notifier_email notification_line_def e_acute_def a_grave_def)

lemma notifier_sms:
  "notification_context p = Some \<lparr>strategy = SMSNotificationStrategy\<rparr> \<Longrightarrow>
   notifier p message out = (None, out @ map
     (\<lambda>m. ''Notification envoy'' @ [CHR 0xC3, CHR 0xA9] @ ''e '' @ [CHR 0xC3, CHR 0xA0] @ '' ''
        @ membre_nom m @ '' par SMS: '' @ message) (membres (equipe p)))"
  by (simp add: notifier_def context_notifier_sms notification_line_def e_acute_def a_grave_def)

lemma notifier_push:
  "notification_context p = Some \<lparr>strategy = PushNotificationStrategy\<rparr> \<Longrightarrow>
   notifier p message out = (None, out @ map
     (\<lambda>m. ''Notification envoy'' @ [CHR 0xC3, CHR 0xA9] @ ''e '' @ [CHR 0xC3, CHR 0xA0] @ '' ''
        @ membre_nom m @ '' par Push: '' @ message) (membres (equipe p)))"
  by (simp add: notifier_def context_notifier_push notification_line_def e_acute_def a_grave_def)

lemma enregistrer_changement_eq:
  "enregistrer_changement now description p out =
     (fst (notifier
        (p\<lparr>changements := changements p @
              [\<lparr>changement_description = description, changement_version = version p,
                changement_date = now\<rparr>],
            version := version p + 1\<rparr>)
        (''Changement enregistr'' @ [CHR 0xC3, CHR 0xA9] @ '': '' @ description
           @ '' (version '' @ str_int (version p + 1) @ '')'') out),
      p\<lparr>changements := changements p @
              [\<lparr>changement_description = description, changement_version = version p,
                changement_date = now\<rparr>],
            version := version p + 1\<rparr>,
      snd (notifier
        (p\<lparr>changements := changements p @
              [\<lparr>changement_description = description, changement_version = version p,
                changement_date = now\<rparr>],
            version := version p + 1\<rparr>)
        (''Changement enregistr'' @ [CHR 0xC3, CHR 0xA9] @ '': '' @ description
           @ '' (version '' @ str_int (version p + 1) @ '')'') out))"
  by (simp add: enregistrer_changement_def Let_def changement_init_def changement_message_def
      e_acute_def split: prod.splits)

text \<open>Claim C7. Recording a change leaves the project as it was except that one
  \<open>Changement\<close> carrying the version of before the call is appended and the
  version is increased by 1; it then notifies the team of the project with the
  message that carries the new version: nothing is printed when no strategy is
  set, and with a strategy of the module one line per member, in order; the
  version is written in decimal, so that it can be read back from the message.
  From a new
  project, after any sequence of method calls, the versions of the recorded
  changes are 1, 2, ... up to the current version minus 1, hence strictly
  increasing; and no method call removes or alters a recorded change.\<close>

theorem enregistrer_changement_versions:
  fixes p :: projet and now :: datetime and description :: string
  defines "p2 \<equiv> p\<lparr>changements := changements p @
              [\<lparr>changement_description = description, changement_version = version p,
                changement_date = now\<rparr>],
            version := version p + 1\<rparr>"
    and "msg \<equiv> ''Changement enregistr'' @ [CHR 0xC3, CHR 0xA9] @ '': '' @ description
           @ '' (version '' @ str_int (version p + 1) @ '')''"
  shows
  "enregistrer_changement now description p out
     = (fst (notifier p2 msg out), p2, snd (notifier p2 msg out)) \<and>
   (notification_context p = None \<longrightarrow>
      enregistrer_changement now description p out = (None, p2, out)) \<and>
   (notification_context p = Some \<lparr>strategy = EmailNotificationStrategy\<rparr> \<longrightarrow>
      enregistrer_changement now description p out = (None, p2, out @ map
        (\<lambda>m. ''Notification envoy'' @ [CHR 0xC3, CHR 0xA9] @ ''e '' @ [CHR 0xC3, CHR 0xA0] @ '' ''
           @ membre_nom m @ '' par email: '' @ msg) (membres (equipe p)))) \<and>
   (notification_context p = Some \<lparr>strategy = SMSNotificationStrategy\<rparr> \<longrightarrow>
      enregistrer_changement now description p out = (None, p2, out @ map
        (\<lambda>m. ''Notification envoy'' @ [CHR 0xC3, CHR 0xA9] @ ''e '' @ [CHR 0xC3, CHR 0xA0] @ '' ''
           @ membre_nom m @ '' par SMS: '' @ msg) (membres (equipe p)))) \<and>
   (notification_context p = Some \<lparr>strategy = PushNotificationStrategy\<rparr> \<longrightarrow>
      enregistrer_changement now description p out = (None, p2, out @ map
        (\<lambda>m. ''Notification envoy'' @ [CHR 0xC3, CHR 0xA9] @ ''e '' @ [CHR 0xC3, CHR 0xA0] @ '' ''
           @ membre_nom m @ '' par Push: '' @ msg) (membres (equipe p)))) \<and>
   (0 \<le> v \<longrightarrow> int (nat_of_digits (str_int v)) = v) \<and>
   changements (fst (snd (enregistrer_changement now description p out)))
     = changements p @ [changement_init now description (version p)] \<and>
   changement_version (changement_init now description (version p)) = version p \<and>
   version (fst (snd (enregistrer_changement now description p out))) = version p + 1 \<and>
   map changement_version (changements (fst (call_methods fs cs (projet_init n de a b bu) out0)))
     = [1..version (fst (call_methods fs cs (projet_init n de a b bu) out0)) - 1] \<and>
   sorted_wrt (<) (map changement_version
     (changements (fst (call_methods fs cs (projet_init n de a b bu) out0)))) \<and>
   take (length (changements p)) (changements (fst (snd (call_method fs c p out)))) = changements p"
proof -
  have e: "enregistrer_changement now description p out
     = (fst (notifier p2 msg out), p2, snd (notifier p2 msg out))"
    unfolding p2_def msg_def by (rule enregistrer_changement_eq)
  have ctx: "notification_context p2 = notification_context p" "membres (equipe p2) = membres (equipe p)"
    by (simp_all add: p2_def)
  have n0: "notification_context p = None \<longrightarrow>
      enregistrer_changement now description p out = (None, p2, out)"
    using notifier_none[of p2 msg out] ctx e by simp
  have n1: "notification_context p = Some \<lparr>strategy = EmailNotificationStrategy\<rparr> \<longrightarrow>
      enregistrer_changement now description p out = (None, p2, out @ map
        (\<lambda>m. ''Notification envoy'' @ [CHR 0xC3, CHR 0xA9] @ ''e '' @ [CHR 0xC3, CHR 0xA0] @ '' ''
           @ membre_nom m @ '' par email: '' @ msg) (membres (equipe p)))"
    using notifier_email[of p2 msg out] ctx e by simp
  have n2: "notification_context p = Some \<lparr>strategy = SMSNotificationStrategy\<rparr> \<longrightarrow>
      enregistrer_changement now description p out = (None, p2, out @ map
        (\<lambda>m. ''Notification envoy'' @ [CHR 0xC3, CHR 0xA9] @ ''e '' @ [CHR 0xC3, CHR 0xA0] @ '' ''
           @ membre_nom m @ '' par SMS: '' @ msg) (membres (equipe p)))"
    using notifier_sms[of p2 msg out] ctx e by simp
  have n3: "notification_context p = Some \<lparr>strategy = PushNotificationStrategy\<rparr> \<longrightarrow>
      enregistrer_changement now description p out = (None, p2, out @ map
        (\<lambda>m. ''Notification envoy'' @ [CHR 0xC3, CHR 0xA9] @ ''e '' @ [CHR 0xC3, CHR 0xA0] @ '' ''
           @ membre_nom m @ '' par Push: '' @ msg) (membres (equipe p)))"
    using notifier_push[of p2 msg out] ctx e by simp
  have i: "1 \<le> version (projet_init n de a b bu)"
    "map changement_version (changements (projet_init n de a b bu))
       = [1..version (projet_init n de a b bu) - 1]"
    by (simp_all add: projet_init_def)
  from call_methods_inv[OF i, of fs cs out0]
  have m: "map changement_version (changements (fst (call_methods fs cs (projet_init n de a b bu) out0)))
     = [1..version (fst (call_methods fs cs (projet_init n de a b bu) out0)) - 1]" by simp
  then have s: "sorted_wrt (<) (map changement_version
     (changements (fst (call_methods fs cs (projet_init n de a b bu) out0))))"
    by (simp add: sorted_wrt_less_upto)
  have v: "changement_version (changement_init now description (version p)) = version p"
    by (simp add: changement_init_def)
  have dg: "0 \<le> v \<longrightarrow> int (nat_of_digits (str_int v)) = v"
    using nat_of_digits_str_int[of v] by blast
  from e n0 n1 n2 n3 dg enregistrer_changement_step(1,2)[of now description p out] v m s
    call_method_prefix[of p fs c out]
  show ?thesis by blast
qed

theorem enregistrer_changement_versions_witness:
  "notification_context projet_email = Some \<lparr>strategy = EmailNotificationStrategy\<rparr> \<and>
   version projet_email = 41 \<and>
   enregistrer_changement 5 ''Nouvelle API'' projet_email []
     = (None,
        projet_email\<lparr>changements :=
            [\<lparr>changement_description = ''Nouvelle API'', changement_version = 41,
              changement_date = 5\<rparr>],
          version := 42\<rparr>,
        [''Notification envoy'' @ [CHR 0xC3, CHR 0xA9] @ ''e '' @ [CHR 0xC3, CHR 0xA0]
           @ '' Modou par email: Changement enregistr'' @ [CHR 0xC3, CHR 0xA9]
           @ '': Nouvelle API (version 42)'',
         ''Notification envoy'' @ [CHR 0xC3, CHR 0xA9] @ ''e '' @ [CHR 0xC3, CHR 0xA0]
           @ '' Christian par email: Changement enregistr'' @ [CHR 0xC3, CHR 0xA9]
           @ '': Nouvelle API (version 42)''])"
proof -
  have c: "notification_context projet_email = Some \<lparr>strategy = EmailNotificationStrategy\<rparr>"
    by (simp add: projet_email_def)
  have v: "version projet_email = 41" "changements projet_email = []"
    "membres (equipe projet_email) = [modou, christian]"
    by (simp_all add: projet_email_def projet_vide_def projet_init_def)
  have s: "str_int 42 = ''42''" by code_simp
  from enregistrer_changement_versions[where p=projet_email and now=5 and description="''Nouvelle API''" and out="[]"] c
  have "enregistrer_changement 5 ''Nouvelle API'' projet_email [] = (None,
      projet_email\<lparr>changements := changements projet_email @
              [\<lparr>changement_description = ''Nouvelle API'', changement_version = version projet_email,
                changement_date = 5\<rparr>],
            version := version projet_email + 1\<rparr>,
      [] @ map
        (\<lambda>m. ''Notification envoy'' @ [CHR 0xC3, CHR 0xA9] @ ''e '' @ [CHR 0xC3, CHR 0xA0] @ '' ''
           @ membre_nom m @ '' par email: '' @ (''Changement enregistr'' @ [CHR 0xC3, CHR 0xA9]
           @ '': '' @ ''Nouvelle API'' @ '' (version '' @ str_int (version projet_email + 1) @ '')''))
        (membres (equipe projet_email)))"
    by blast
  with c v s show ?thesis by (simp add: modou_def christian_def)
qed

end
